theory Spec2Isabelle
  imports Complex_Main "HOL-Library.Sublist" "HOL-Library.AList"
begin

section \<open>JavaScript values\<close>

text \<open>
  The values that reach the normalisation code of \<^verbatim>\<open>script.js\<close>: cells of a parsed
  CSV row, labels of the knowledge base, and whatever a property read on a plain object
  yields.  A number is represented by its canonical rendering (the result of
  \<^verbatim>\<open>String(n)\<close>), which determines everything the program observes of it: its
  truthiness, its type tag, its use as a property key and its identity under
  \<^verbatim>\<open>Array.prototype.includes\<close> (both zeros render as \<^verbatim>\<open>0\<close>).  \<open>JBuiltin n\<close> is the
  built-in object called \<open>n\<close>; the only ones the program can meet are the members of
  \<^verbatim>\<open>Object.prototype\<close>, which every plain object inherits.

  Strings are HOL strings: sequences of characters with codes 0 to 255, read as the
  code points U+0000 to U+00FF.
\<close>

datatype jsval =
    JUndefined
  | JNull
  | JBool bool
  | JNum string
  | JStr string
  | JBuiltin string

datatype js_error = TypeError | SyntaxError | NetworkError | HttpError | LibraryError

text \<open>\<^verbatim>\<open>!x\<close> is \<open>\<not> truthy x\<close>.\<close>

fun truthy :: "jsval \<Rightarrow> bool" where
  "truthy JUndefined = False"
| "truthy JNull = False"
| "truthy (JBool b) = b"
| "truthy (JNum t) = (t \<noteq> ''0'' \<and> t \<noteq> ''NaN'')"
| "truthy (JStr s) = (s \<noteq> [])"
| "truthy (JBuiltin n) = True"

text \<open>
  The members every plain object inherits from \<^verbatim>\<open>Object.prototype\<close>.  All are
  functions, except \<^verbatim>\<open>__proto__\<close>, an accessor that yields the prototype object itself.
\<close>

definition Object_prototype :: "string \<Rightarrow> jsval option" where
  "Object_prototype k =
     (if k = ''constructor'' then Some (JBuiltin ''Object'')
      else if k = ''__proto__'' then Some (JBuiltin ''Object.prototype'')
      else if k \<in> set [''__defineGetter__'', ''__defineSetter__'', ''hasOwnProperty'',
                        ''__lookupGetter__'', ''__lookupSetter__'', ''isPrototypeOf'',
                        ''propertyIsEnumerable'', ''toString'', ''valueOf'', ''toLocaleString'']
      then Some (JBuiltin k)
      else None)"

text \<open>
  A plain object (the result of \<^verbatim>\<open>JSON.parse\<close>, a parsed CSV row, an object literal) is
  the association list of its own properties.  The read \<^verbatim>\<open>o[k]\<close> finds an own property
  first, then an inherited one, and is \<^verbatim>\<open>undefined\<close> otherwise.
\<close>

type_synonym jsobject = "(string \<times> jsval) list"

definition js_get :: "jsobject \<Rightarrow> string \<Rightarrow> jsval" where
  "js_get obj k =
     (case map_of obj k of
        Some v \<Rightarrow> v
      | None \<Rightarrow> (case Object_prototype k of Some b \<Rightarrow> b | None \<Rightarrow> JUndefined))"

text \<open>
  The conversion of a value to a property key.  A native function renders as V8 prints
  it.
\<close>

fun to_key :: "jsval \<Rightarrow> string" where
  "to_key JUndefined = ''undefined''"
| "to_key JNull = ''null''"
| "to_key (JBool b) = (if b then ''true'' else ''false'')"
| "to_key (JNum t) = t"
| "to_key (JStr s) = s"
| "to_key (JBuiltin n) =
     (if n = ''Object.prototype'' then ''[object Object]''
      else ''function '' @ n @ ''() { [native code] }'')"

section \<open>The canonicalizer: \<^verbatim>\<open>cleanName\<close>\<close>

text \<open>
  \<^verbatim>\<open>\w\<close> is \<^verbatim>\<open>[A-Za-z0-9_]\<close>; \<^verbatim>\<open>\s\<close> and \<^verbatim>\<open>trim\<close> recognise, below U+0100, the
  characters TAB, LF, VT, FF, CR, SPACE and NO-BREAK SPACE.
\<close>

definition is_word :: "char \<Rightarrow> bool" where
  "is_word c = (let n = (of_char c :: nat) in
      (48 \<le> n \<and> n \<le> 57) \<or> (65 \<le> n \<and> n \<le> 90) \<or> n = 95 \<or> (97 \<le> n \<and> n \<le> 122))"

definition is_space :: "char \<Rightarrow> bool" where
  "is_space c = (let n = (of_char c :: nat) in (9 \<le> n \<and> n \<le> 13) \<or> n = 32 \<or> n = 160)"

text \<open>\<^verbatim>\<open>toLowerCase\<close> on U+0000 to U+00FF: the letters A to Z, and U+00C0 to U+00DE but U+00D7.\<close>

definition toLowerCase_char :: "char \<Rightarrow> char" where
  "toLowerCase_char c = (let n = (of_char c :: nat) in
      if (65 \<le> n \<and> n \<le> 90) \<or> (192 \<le> n \<and> n \<le> 222 \<and> n \<noteq> 215)
      then char_of (n + 32) else c)"

definition toLowerCase :: "string \<Rightarrow> string" where
  "toLowerCase s = map toLowerCase_char s"

text \<open>\<^verbatim>\<open>.replace(/[.,&()]/g, '')\<close>\<close>

definition is_punctuation :: "char \<Rightarrow> bool" where
  "is_punctuation c = (c \<in> set ''.,&()'')"

definition remove_punctuation :: "string \<Rightarrow> string" where
  "remove_punctuation s = filter (\<lambda>c. \<not> is_punctuation c) s"

text \<open>
  \<^verbatim>\<open>.replace(/\b(inc|corp|llc|lp|co|ltd|group|financial|bank|national association|na|co)\b/g, '')\<close>

  The alternatives, in the order the regular expression tries them.
\<close>

definition suffix_tokens :: "string list" where
  "suffix_tokens = [''inc'', ''corp'', ''llc'', ''lp'', ''co'', ''ltd'', ''group'',
     ''financial'', ''bank'', ''national association'', ''na'', ''co'']"

fun is_word_opt :: "char option \<Rightarrow> bool" where
  "is_word_opt None = False"
| "is_word_opt (Some c) = is_word c"

text \<open>
  \<^verbatim>\<open>\b\<close> holds between two positions when exactly one of the neighbouring characters is
  a word character; the start and the end of the string count as non-word.
\<close>

definition word_boundary :: "char option \<Rightarrow> string \<Rightarrow> bool" where
  "word_boundary prev rest = (is_word_opt prev \<noteq> is_word_opt (case rest of [] \<Rightarrow> None | c # _ \<Rightarrow> Some c))"

definition token_matches :: "string \<Rightarrow> string \<Rightarrow> bool" where
  "token_matches rest t =
     (prefix t rest \<and> word_boundary (Some (last t)) (drop (length t) rest))"

text \<open>
  The match of the pattern at one position: \<open>prev\<close> is the character before the
  position, \<open>rest\<close> the text from it.  The first alternative that matches with a
  boundary after it wins.
\<close>

definition match_suffix :: "char option \<Rightarrow> string \<Rightarrow> string option" where
  "match_suffix prev rest =
     (if word_boundary prev rest then find (token_matches rest) suffix_tokens else None)"

text \<open>
  The global replace scans from left to right; after a match it resumes behind the
  match, and the character before that position is the last one of the match.
\<close>

function remove_suffixes :: "char option \<Rightarrow> string \<Rightarrow> string" where
  "remove_suffixes prev [] = []"
| "remove_suffixes prev (c # cs) =
     (case match_suffix prev (c # cs) of
        Some t \<Rightarrow> remove_suffixes (Some (last t)) (drop (length t) (c # cs))
      | None \<Rightarrow> c # remove_suffixes (Some c) cs)"
  by pat_completeness auto
termination
proof (relation "measure (\<lambda>(p, s). length s)")
  fix prev :: "char option" and c :: char and cs t :: string
  assume "match_suffix prev (c # cs) = Some t"
  then have "t \<noteq> []"
    by (auto simp: match_suffix_def find_Some_iff suffix_tokens_def nth_Cons' split: if_splits)
  then show "((Some (last t), drop (length t) (c # cs)), (prev, c # cs))
               \<in> measure (\<lambda>(p, s). length s)"
    by (cases t) auto
qed auto

text \<open>\<^verbatim>\<open>.replace(/\s+/g, ' ')\<close>\<close>

function collapse_spaces :: "string \<Rightarrow> string" where
  "collapse_spaces [] = []"
| "collapse_spaces (c # cs) =
     (if is_space c then CHR '' '' # collapse_spaces (dropWhile is_space cs)
      else c # collapse_spaces cs)"
  by pat_completeness auto
termination
  by (relation "measure length") (auto simp: less_Suc_eq_le length_dropWhile_le)

text \<open>\<^verbatim>\<open>.trim()\<close>\<close>

definition trim :: "string \<Rightarrow> string" where
  "trim s = rev (dropWhile is_space (rev (dropWhile is_space s)))"

text \<open>The chain of string operations of \<^verbatim>\<open>cleanName\<close>, on a string.\<close>

definition canonicalize :: "string \<Rightarrow> string" where
  "canonicalize s =
     trim (collapse_spaces (remove_suffixes None (remove_punctuation (toLowerCase s))))"

fun cleanName :: "jsval \<Rightarrow> string" where
  "cleanName (JStr s) = (if s = [] then [] else canonicalize s)"
| "cleanName _ = []"

section \<open>Notions for reasoning about the canonicalizer\<close>

text \<open>
  A whole-word occurrence of \<open>w\<close> in a text: an occurrence with a \<^verbatim>\<open>\b\<close> on both
  sides; \<open>prev\<close> is the character before the text.
\<close>

fun whole_word :: "string \<Rightarrow> char option \<Rightarrow> string \<Rightarrow> bool" where
  "whole_word w prev [] = False"
| "whole_word w prev (c # cs) =
     ((word_boundary prev (c # cs) \<and> token_matches (c # cs) w) \<or> whole_word w (Some c) cs)"

definition has_national_association :: "string \<Rightarrow> bool" where
  "has_national_association t = whole_word ''national association'' None t"

text \<open>The alternatives of the pattern that are single words.\<close>

definition simple_tokens :: "string list" where
  "simple_tokens = [''inc'', ''corp'', ''llc'', ''lp'', ''co'', ''ltd'', ''group'',
     ''financial'', ''bank'', ''na'']"

text \<open>
  \<open>no_match\<close>: the pattern matches at no position of the text; \<open>no_simple\<close>: none of
  the single words is a whole word of the text; \<open>tidy\<close>: every whitespace character of
  the text is a single SPACE between other characters or at an end; \<open>clean_char\<close>: a
  character that the first two steps of \<^verbatim>\<open>cleanName\<close> leave in place.
\<close>

fun no_match :: "char option \<Rightarrow> string \<Rightarrow> bool" where
  "no_match p [] = True"
| "no_match p (c # cs) = (match_suffix p (c # cs) = None \<and> no_match (Some c) cs)"

definition simple_match :: "char option \<Rightarrow> string \<Rightarrow> bool" where
  "simple_match p rest = (word_boundary p rest \<and> (\<exists>t\<in>set simple_tokens. token_matches rest t))"

fun no_simple :: "char option \<Rightarrow> string \<Rightarrow> bool" where
  "no_simple p [] = True"
| "no_simple p (c # cs) = (\<not> simple_match p (c # cs) \<and> no_simple (Some c) cs)"

fun tidy :: "string \<Rightarrow> bool" where
  "tidy [] = True"
| "tidy (c # cs) =
     ((if is_space c then c = CHR '' '' \<and> (cs = [] \<or> \<not> is_space (hd cs)) else True) \<and> tidy cs)"

definition clean_char :: "char \<Rightarrow> bool" where
  "clean_char c = (toLowerCase_char c = c \<and> \<not> is_punctuation c)"

section \<open>Knowledge base, application state and \<^verbatim>\<open>initialize\<close>\<close>

text \<open>
  The parsed knowledge-base document: an object whose member \<^verbatim>\<open>variants\<close>, when
  there, is a plain object, and whose member \<^verbatim>\<open>allKnownVariants\<close>, when there, is an
  array of strings.  \<open>None\<close> is a member that is missing.  The labels are JSON
  scalars.  The body of a response is no JSON text, the JSON value \<^verbatim>\<open>null\<close>, or such
  an object; a body that is a number, a string or an array is not modelled.
\<close>

record knowledge_base =
  variants :: "jsobject option"
  allKnownVariants :: "string list option"

text \<open>One result of \<^verbatim>\<open>fuse.search\<close>; the score is the value of the double.\<close>

record fuse_result =
  item :: string
  score :: rat

text \<open>
  The index that the library builds, as its method \<^verbatim>\<open>search\<close>: the results for a query,
  best first.  The method is taken to return for every query.
\<close>

type_synonym fuse_index = "string \<Rightarrow> fuse_result list"

record normalized =
  Input_Firm_Name :: jsval
  Standardized_Firm_Name :: jsval

text \<open>One \<^verbatim>\<open><details>\<close> element of the results view.\<close>

record details =
  summary_key :: string
  summary_count :: nat
  listed :: "jsval list"
  omitted :: "nat option"

text \<open>
  The variables of the closure.  \<open>None\<close> is \<^verbatim>\<open>null\<close>.  \<open>resultsDiv\<close> is the content
  of the results element; the other effects on the page (status line, buttons) are
  left out.
\<close>

record app_state =
  knowledgeBase :: "knowledge_base option"
  fuse :: "fuse_index option"
  parsedData :: "jsobject list"
  normalizedResults :: "normalized list"
  resultsDiv :: "details list"

datatype response_body = NotJson | JsonNull | JsonObject knowledge_base

datatype fetch_outcome = FetchRejected | Response bool response_body

text \<open>
  \<^verbatim>\<open>initialize\<close>: \<open>newFuse\<close> is the constructor of the Fuse.js library, applied to
  \<^verbatim>\<open>knowledgeBase.allKnownVariants\<close>; it may raise.  The result pairs the new state
  with the error the \<^verbatim>\<open>catch\<close> block reports, if any.
\<close>

definition initialize ::
  "(string list option \<Rightarrow> js_error + fuse_index) \<Rightarrow> fetch_outcome \<Rightarrow> app_state
     \<Rightarrow> app_state \<times> js_error option" where
  "initialize newFuse outcome st =
     (case outcome of
        FetchRejected \<Rightarrow> (st, Some NetworkError)
      | Response ok body \<Rightarrow>
          if \<not> ok then (st, Some HttpError)
          else (case body of
              NotJson \<Rightarrow> (st, Some SyntaxError)
            | JsonNull \<Rightarrow> (st\<lparr>knowledgeBase := None\<rparr>, Some TypeError)
            | JsonObject kb \<Rightarrow>
                (case newFuse (allKnownVariants kb) of
                   Inl e \<Rightarrow> (st\<lparr>knowledgeBase := Some kb\<rparr>, Some e)
                 | Inr f \<Rightarrow> (st\<lparr>knowledgeBase := Some kb, fuse := Some f\<rparr>, None))))"

section \<open>The standardizer: \<^verbatim>\<open>standardizeName\<close>\<close>

text \<open>
  The literal \<^verbatim>\<open>0.35\<close> denotes the double nearest to it, which is
  \<open>6305039478318694 / 2 ^ 54\<close>; comparing two doubles compares their values.
\<close>

definition confidence_threshold :: rat where
  "confidence_threshold = 6305039478318694 / 18014398509481984"

definition UNKNOWN :: jsval where
  "UNKNOWN = JStr ''UNKNOWN''"

text \<open>Lines 63 to 70: the fuzzy match.\<close>

definition fuzzy_match :: "fuse_index option \<Rightarrow> jsobject \<Rightarrow> string \<Rightarrow> js_error + jsval" where
  "fuzzy_match fz vs cleaned =
     (case fz of
        None \<Rightarrow> Inl TypeError
      | Some search \<Rightarrow>
          (case search cleaned of
             [] \<Rightarrow> Inr UNKNOWN
           | r # _ \<Rightarrow>
               if score r < confidence_threshold then Inr (js_get vs (item r))
               else Inr UNKNOWN))"

definition standardizeName :: "app_state \<Rightarrow> jsval \<Rightarrow> js_error + jsval" where
  "standardizeName st inputName =
     (if \<not> truthy inputName then Inr UNKNOWN
      else let cleaned = cleanName inputName in
        if cleaned = [] then Inr UNKNOWN
        else (case knowledgeBase st of
            None \<Rightarrow> Inl TypeError
          | Some kb \<Rightarrow>
              (case variants kb of
                 None \<Rightarrow> Inl TypeError
               | Some vs \<Rightarrow>
                   if truthy (js_get vs cleaned) then Inr (js_get vs cleaned)
                   else fuzzy_match (fuse st) vs cleaned)))"

section \<open>The results view: \<^verbatim>\<open>displayResults\<close>\<close>

text \<open>
  The accumulator of the \<^verbatim>\<open>reduce\<close> is a plain object whose own properties are
  arrays of input names, in the order the properties were created.
\<close>

type_synonym grouped = "(string \<times> jsval list) list"

text \<open>
  The callback of the \<^verbatim>\<open>reduce\<close>.  The read \<^verbatim>\<open>acc[key]\<close> finds an own array (truthy,
  also when empty), or a member inherited from \<^verbatim>\<open>Object.prototype\<close> (truthy, and
  without a method \<^verbatim>\<open>includes\<close>, so the call raises), or nothing.
\<close>

definition group_step :: "grouped \<Rightarrow> normalized \<Rightarrow> js_error + grouped" where
  "group_step acc cur =
     (let key = to_key (Standardized_Firm_Name cur); name = Input_Firm_Name cur in
      case map_of acc key of
        Some names \<Rightarrow>
          Inr (if name \<in> set names then acc else AList.update key (names @ [name]) acc)
      | None \<Rightarrow>
          (case Object_prototype key of
             Some b \<Rightarrow> Inl TypeError
           | None \<Rightarrow> Inr (acc @ [(key, [name])])))"

fun group_results :: "grouped \<Rightarrow> normalized list \<Rightarrow> js_error + grouped" where
  "group_results acc [] = Inr acc"
| "group_results acc (cur # rest) =
     (case group_step acc cur of
        Inl e \<Rightarrow> Inl e
      | Inr acc' \<Rightarrow> group_results acc' rest)"

text \<open>
  \<^verbatim>\<open>Object.keys\<close>: the own keys that are array indices (canonical decimal numerals
  below \<open>2 ^ 32 - 1\<close>) in ascending numeric order, then the other keys in the order of
  their creation.
\<close>

definition is_digit :: "char \<Rightarrow> bool" where
  "is_digit c = (let n = (of_char c :: nat) in 48 \<le> n \<and> n \<le> 57)"

definition index_value :: "string \<Rightarrow> nat" where
  "index_value k = foldl (\<lambda>n c. 10 * n + (of_char c - 48)) 0 k"

definition is_array_index :: "string \<Rightarrow> bool" where
  "is_array_index k =
     (k \<noteq> [] \<and> list_all is_digit k \<and> (length k = 1 \<or> hd k \<noteq> CHR ''0'')
      \<and> index_value k < 4294967295)"

definition own_keys :: "(string \<times> 'a) list \<Rightarrow> string list" where
  "own_keys obj =
     (let ks = map fst obj in
      sort_key index_value (filter is_array_index ks) @ filter (\<lambda>k. \<not> is_array_index k) ks)"

text \<open>
  The comparison function handed to \<^verbatim>\<open>sort\<close>; \<open>localeCompare\<close> is the collation of
  the host, \<^verbatim>\<open>String.prototype.localeCompare\<close>.
\<close>

definition compare_keys :: "(string \<Rightarrow> string \<Rightarrow> int) \<Rightarrow> string \<Rightarrow> string \<Rightarrow> int" where
  "compare_keys localeCompare a b =
     (if a = ''UNKNOWN'' then 1
      else if b = ''UNKNOWN'' then -1
      else localeCompare a b)"

text \<open>
  \<^verbatim>\<open>Array.prototype.sort\<close> is stable; with a comparison function that is consistent on
  the elements it yields the one stable sorted arrangement, which insertion from the
  right computes.
\<close>

fun js_insert :: "('a \<Rightarrow> 'a \<Rightarrow> int) \<Rightarrow> 'a \<Rightarrow> 'a list \<Rightarrow> 'a list" where
  "js_insert cmp x [] = [x]"
| "js_insert cmp x (y # ys) = (if cmp x y \<le> 0 then x # y # ys else y # js_insert cmp x ys)"

definition js_sort :: "('a \<Rightarrow> 'a \<Rightarrow> int) \<Rightarrow> 'a list \<Rightarrow> 'a list" where
  "js_sort cmp xs = foldr (js_insert cmp) xs []"

text \<open>The own property \<^verbatim>\<open>grouped[key]\<close>, for a key that \<^verbatim>\<open>Object.keys\<close> returned.\<close>

definition group_of :: "grouped \<Rightarrow> string \<Rightarrow> jsval list" where
  "group_of g key = (case map_of g key of Some names \<Rightarrow> names | None \<Rightarrow> [])"

text \<open>
  The body of the \<^verbatim>\<open>for\<close> loop over the sorted keys: the summary line, at most 100
  list items, and the item that counts the rest.
\<close>

definition render_group :: "string \<Rightarrow> jsval list \<Rightarrow> details" where
  "render_group key names =
     \<lparr>summary_key = key,
      summary_count = length names,
      listed = take 100 names,
      omitted = (if length names > 100 then Some (length names - 100) else None)\<rparr>"

definition sortedKeys :: "(string \<Rightarrow> string \<Rightarrow> int) \<Rightarrow> grouped \<Rightarrow> string list" where
  "sortedKeys localeCompare g = js_sort (compare_keys localeCompare) (own_keys g)"

definition displayResults ::
  "(string \<Rightarrow> string \<Rightarrow> int) \<Rightarrow> app_state \<Rightarrow> app_state \<times> js_error option" where
  "displayResults localeCompare st =
     (case group_results [] (normalizedResults st) of
        Inl e \<Rightarrow> (st, Some e)
      | Inr g \<Rightarrow>
          (st\<lparr>resultsDiv :=
                map (\<lambda>key. render_group key (group_of g key)) (sortedKeys localeCompare g)\<rparr>,
           None))"

section \<open>The batch runner: \<^verbatim>\<open>processData\<close>\<close>

definition chunkSize :: nat where
  "chunkSize = 1000"

text \<open>
  The \<^verbatim>\<open>for\<close> loop of \<^verbatim>\<open>processChunk\<close>.  A read of \<^verbatim>\<open>parsedData[i]\<close> beyond the array
  is \<^verbatim>\<open>undefined\<close>, and reading a property of it raises.  An exception leaves the
  records pushed so far in place.
\<close>

function process_rows :: "string \<Rightarrow> nat \<Rightarrow> nat \<Rightarrow> app_state \<Rightarrow> app_state \<times> js_error option" where
  "process_rows column i endIdx st =
     (if i < endIdx then
        (if length (parsedData st) \<le> i then (st, Some TypeError)
         else
           let row = parsedData st ! i;
               originalName = js_get row column
           in case standardizeName st originalName of
                Inl e \<Rightarrow> (st, Some e)
              | Inr standardized \<Rightarrow>
                  process_rows column (Suc i) endIdx
                    (st\<lparr>normalizedResults := normalizedResults st @
                         [\<lparr>Input_Firm_Name = originalName,
                           Standardized_Firm_Name = standardized\<rparr>]\<rparr>))
      else (st, None))"
  by pat_completeness auto
termination
  by (relation "measure (\<lambda>(column, i, endIdx, st). endIdx - i)") auto

text \<open>
  The yield.  \<^verbatim>\<open>setTimeout(processChunk, 0)\<close> hands control back to the event loop, and
  the handlers of the events that have arrived run before the next chunk.  Two handlers
  of the program change its variables: the \<^verbatim>\<open>complete\<close> callback of the parser (line
  85), which replaces \<^verbatim>\<open>parsedData\<close> when another file has been chosen (the file input
  stays enabled during a run), and the continuation of \<^verbatim>\<open>initialize\<close>, when the fetch
  settles only now.  The click handler of the process button cannot run, since the
  button is disabled during a run, and the download handler changes nothing.
\<close>

datatype event = FileParsed "jsobject list" | InitializeSettled fetch_outcome

fun handle_event ::
  "(string list option \<Rightarrow> js_error + fuse_index) \<Rightarrow> app_state \<Rightarrow> event \<Rightarrow> app_state" where
  "handle_event newFuse st (FileParsed rows) = st\<lparr>parsedData := rows\<rparr>"
| "handle_event newFuse st (InitializeSettled outcome) = fst (initialize newFuse outcome st)"

text \<open>
  \<^verbatim>\<open>processChunk\<close>: \<open>processedCount\<close> and \<open>totalRows\<close> are the variables of the enclosing
  \<^verbatim>\<open>processData\<close>, which the handlers do not touch.  \<open>yields\<close> lists, for each yield of
  the run in turn, the events whose handlers run during it; when the list is used up
  the later yields are quiet.  The call through \<^verbatim>\<open>setTimeout\<close> is the recursive call,
  on the state the handlers have left.
\<close>

function processChunk ::
  "(string list option \<Rightarrow> js_error + fuse_index) \<Rightarrow> (string \<Rightarrow> string \<Rightarrow> int) \<Rightarrow> string
     \<Rightarrow> nat \<Rightarrow> nat \<Rightarrow> event list list \<Rightarrow> app_state \<Rightarrow> app_state \<times> js_error option" where
  "processChunk newFuse localeCompare column totalRows processedCount yields st =
     (let endIdx = min (processedCount + chunkSize) totalRows in
      case process_rows column processedCount endIdx st of
        (st', Some e) \<Rightarrow> (st', Some e)
      | (st', None) \<Rightarrow>
          if endIdx < totalRows
          then processChunk newFuse localeCompare column totalRows endIdx (tl yields)
                 (foldl (handle_event newFuse) st' (case yields of [] \<Rightarrow> [] | evs # _ \<Rightarrow> evs))
          else displayResults localeCompare st')"
  by pat_completeness auto
termination
  by (relation "measure (\<lambda>(nf, lc, column, totalRows, processedCount, ys, st).
          totalRows - processedCount)")
     (auto simp: chunkSize_def min_def split: if_splits)

declare process_rows.simps [simp del] processChunk.simps [simp del]

definition processData ::
  "(string list option \<Rightarrow> js_error + fuse_index) \<Rightarrow> (string \<Rightarrow> string \<Rightarrow> int) \<Rightarrow> string
     \<Rightarrow> event list list \<Rightarrow> app_state \<Rightarrow> app_state \<times> js_error option" where
  "processData newFuse localeCompare column yields st =
     processChunk newFuse localeCompare column (length (parsedData st)) 0 yields
       (st\<lparr>normalizedResults := []\<rparr>)"

section \<open>The export: the click handler of the download button\<close>

text \<open>
  \<open>unparse\<close> is the serializer of the Papa Parse library.  The result is the text of
  the alert, or the content of the file offered for download.
\<close>

definition downloadClick :: "(normalized list \<Rightarrow> string) \<Rightarrow> app_state \<Rightarrow> string + string" where
  "downloadClick unparse st =
     (if length (normalizedResults st) = 0 then Inl ''No results to download.''
      else Inr (unparse (normalizedResults st)))"

section \<open>The batch runner as the specification words it\<close>

text \<open>
  The specification applies the standardizer to the selected field of each row on its
  own and keeps the order of the rows: a map over the rows.  The outcome for a row is
  the input name with the label, or with the error when the standardizer raises on
  that name; no outcome depends on another row.
\<close>

definition independent_results ::
  "(jsval \<Rightarrow> js_error + jsval) \<Rightarrow> string \<Rightarrow> jsobject list \<Rightarrow> (jsval \<times> (js_error + jsval)) list" where
  "independent_results standardize column rows =
     map (\<lambda>row. (js_get row column, standardize (js_get row column))) rows"


section \<open>Notions for reasoning about the batch runner\<close>

text \<open>
  The loop of the program over a list of rows without chunks and yields: it pushes a
  record per row and stops at the first row on which the standardizer raises.  It is
  the stepping stone between \<^verbatim>\<open>processChunk\<close> and the map of the specification.
\<close>

fun unchunked_loop ::
  "(jsval \<Rightarrow> js_error + jsval) \<Rightarrow> string \<Rightarrow> jsobject list
     \<Rightarrow> normalized list \<times> js_error option" where
  "unchunked_loop standardize column [] = ([], None)"
| "unchunked_loop standardize column (row # rows) =
     (let originalName = js_get row column in
      case standardize originalName of
        Inl e \<Rightarrow> ([], Some e)
      | Inr standardized \<Rightarrow>
          (case unchunked_loop standardize column rows of
             (records, err) \<Rightarrow>
               (\<lparr>Input_Firm_Name = originalName, Standardized_Firm_Name = standardized\<rparr>
                  # records,
                err)))"


section \<open>The grouped view as the specification words it\<close>

text \<open>
  \<open>first_seen\<close> keeps the first occurrence of every element, in the order of the list.
  The groups of the specification: one per standardized name, in the order in which
  the names first occur, each with the distinct input names in first-seen order.
\<close>

primrec first_seen :: "'a list \<Rightarrow> 'a list" where
  "first_seen [] = []"
| "first_seen (x # xs) = x # filter (\<lambda>y. y \<noteq> x) (first_seen xs)"

definition record_key :: "normalized \<Rightarrow> string" where
  "record_key r = to_key (Standardized_Firm_Name r)"

definition names_under :: "string \<Rightarrow> normalized list \<Rightarrow> jsval list" where
  "names_under key records = map Input_Firm_Name (filter (\<lambda>r. record_key r = key) records)"

definition groups_of :: "normalized list \<Rightarrow> grouped" where
  "groups_of records =
     map (\<lambda>key. (key, first_seen (names_under key records))) (first_seen (map record_key records))"

text \<open>
  What \<^verbatim>\<open>sort\<close> needs of the collation of the host: any two keys are comparable, and
  the comparison is transitive.
\<close>

definition consistent_collation :: "(string \<Rightarrow> string \<Rightarrow> int) \<Rightarrow> bool" where
  "consistent_collation lc =
     ((\<forall>a b. lc a b \<le> 0 \<or> lc b a \<le> 0) \<and> (\<forall>a b c. lc a b \<le> 0 \<and> lc b c \<le> 0 \<longrightarrow> lc a c \<le> 0))"

text \<open>A collation for the examples: the order of the code units.\<close>

fun codeunit_compare :: "string \<Rightarrow> string \<Rightarrow> int" where
  "codeunit_compare [] [] = 0"
| "codeunit_compare [] (b # bs) = -1"
| "codeunit_compare (a # as) [] = 1"
| "codeunit_compare (a # as) (b # bs) =
     (if (of_char a :: nat) < of_char b then -1
      else if (of_char b :: nat) < of_char a then 1
      else codeunit_compare as bs)"

section \<open>Example data\<close>

text \<open>The state at lines 13 to 17.\<close>

definition initial_state :: app_state where
  "initial_state =
     \<lparr>knowledgeBase = None, fuse = None, parsedData = [], normalizedResults = [],
      resultsDiv = []\<rparr>"

text \<open>
  Two stand-ins for the Fuse.js library in the examples: an index that finds the
  entries of the corpus equal to the query, at score 0, and an index that answers every
  query with one given result.
\<close>

definition exact_search :: "string list \<Rightarrow> fuse_index" where
  "exact_search corpus query =
     map (\<lambda>v. \<lparr>item = v, score = 0\<rparr>) (filter (\<lambda>v. v = query) corpus)"

definition fixed_search :: "fuse_result \<Rightarrow> fuse_index" where
  "fixed_search r query = [r]"

fun exact_Fuse :: "string list option \<Rightarrow> js_error + fuse_index" where
  "exact_Fuse None = Inl TypeError"
| "exact_Fuse (Some corpus) = Inr (exact_search corpus)"

text \<open>The knowledge base of the first scenario of the specification.\<close>

definition scenario_kb :: knowledge_base where
  "scenario_kb =
     \<lparr>variants = Some [(''jpmorgan chase'', JStr ''JPMorgan Chase & Co.'')],
      allKnownVariants = Some [''jpmorgan chase'']\<rparr>"

definition scenario_state :: "fuse_index \<Rightarrow> app_state" where
  "scenario_state search = initial_state\<lparr>knowledgeBase := Some scenario_kb, fuse := Some search\<rparr>"

text \<open>A document whose index has the empty key, and a key with an empty label.\<close>

definition blank_kb :: knowledge_base where
  "blank_kb =
     \<lparr>variants = Some [([], JStr ''Holding''), (''acme'', JStr [])],
      allKnownVariants = Some [[], ''acme'']\<rparr>"

definition blank_state :: "fuse_index \<Rightarrow> app_state" where
  "blank_state search = initial_state\<lparr>knowledgeBase := Some blank_kb, fuse := Some search\<rparr>"

text \<open>
  A document whose index maps the empty key to the empty label, with an index that
  finds the entries equal to the query.
\<close>

definition empty_label_kb :: knowledge_base where
  "empty_label_kb = \<lparr>variants = Some [([], JStr [])], allKnownVariants = Some [[]]\<rparr>"

definition empty_label_state :: app_state where
  "empty_label_state =
     initial_state\<lparr>knowledgeBase := Some empty_label_kb, fuse := Some (exact_search [[]])\<rparr>"

text \<open>Documents whose two members disagree, and a document without a mapping.\<close>

definition mismatched_kb :: knowledge_base where
  "mismatched_kb =
     \<lparr>variants = Some [(''jpmorgan chase'', JStr ''JPMorgan Chase & Co.'')],
      allKnownVariants = Some [''acme'']\<rparr>"

definition corpus_only_kb :: knowledge_base where
  "corpus_only_kb = \<lparr>variants = None, allKnownVariants = Some []\<rparr>"

text \<open>
  Modelled from the spec: the consistency invariant of its data model, which no code
  under \<^verbatim>\<open>src/\<close> states: every key of the index is in the set of known variants.
\<close>

definition kb_consistent :: "knowledge_base \<Rightarrow> bool" where
  "kb_consistent kb =
     (case variants kb of
        None \<Rightarrow> False
      | Some vs \<Rightarrow>
          (case allKnownVariants kb of
             None \<Rightarrow> False
           | Some corpus \<Rightarrow> list_all (\<lambda>k. k \<in> set corpus) (map fst vs)))"

text \<open>
  The fourth scenario of the specification: three rows with the column \<^verbatim>\<open>name\<close>, and
  a knowledge base that maps \<^verbatim>\<open>acme\<close> to \<^verbatim>\<open>Acme Corporation\<close>.
\<close>

definition acme_kb :: knowledge_base where
  "acme_kb =
     \<lparr>variants = Some [(''acme'', JStr ''Acme Corporation'')],
      allKnownVariants = Some [''acme'']\<rparr>"

definition acme_rows :: "jsobject list" where
  "acme_rows =
     [[(''name'', JStr ''Acme Bank'')], [(''name'', JStr ''ACME BANK.'')],
      [(''name'', JStr ''UNKNOWN CO'')]]"

definition acme_state :: app_state where
  "acme_state =
     initial_state\<lparr>knowledgeBase := Some acme_kb, fuse := Some (exact_search [''acme'']),
                   parsedData := acme_rows\<rparr>"

definition acme_records :: "normalized list" where
  "acme_records =
     [\<lparr>Input_Firm_Name = JStr ''Acme Bank'', Standardized_Firm_Name = JStr ''Acme Corporation''\<rparr>,
      \<lparr>Input_Firm_Name = JStr ''ACME BANK.'', Standardized_Firm_Name = JStr ''Acme Corporation''\<rparr>,
      \<lparr>Input_Firm_Name = JStr ''UNKNOWN CO'', Standardized_Firm_Name = JStr ''UNKNOWN''\<rparr>]"


text \<open>
  A file of 1001 rows with empty names, and the rows of another file, chosen while the
  first is being processed.
\<close>

definition blank_row :: jsobject where
  "blank_row = [(''name'', JStr [])]"

definition null_row :: jsobject where
  "null_row = [(''name'', JNull)]"

definition crowded_state :: app_state where
  "crowded_state = initial_state\<lparr>parsedData := replicate 1001 blank_row\<rparr>"

text \<open>A stand-in for the serializer: one line per record, the two fields joined by a comma.\<close>

definition plain_unparse :: "normalized list \<Rightarrow> string" where
  "plain_unparse records =
     concat (map (\<lambda>r. to_key (Input_Firm_Name r) @ '','' @ to_key (Standardized_Firm_Name r)
                        @ [CHR 0x0A]) records)"

text \<open>A record whose standardized name is the name of an inherited member.\<close>

definition constructor_record :: normalized where
  "constructor_record =
     \<lparr>Input_Firm_Name = JStr ''Acme'', Standardized_Firm_Name = JStr ''constructor''\<rparr>"

section \<open>Facts about the canonicalizer\<close>

subsection \<open>Characters and removed words\<close>

lemma suffix_tokens_split:
  "set suffix_tokens = insert ''national association'' (set simple_tokens)"
  by (auto simp: suffix_tokens_def simple_tokens_def)

lemma simple_tokens_word: "t \<in> set simple_tokens \<Longrightarrow> t \<noteq> [] \<and> list_all is_word t"
  by (auto simp: simple_tokens_def is_word_def)

lemma suffix_tokens_ends: "t \<in> set suffix_tokens \<Longrightarrow> t \<noteq> [] \<and> is_word (hd t) \<and> is_word (last t)"
  by (auto simp: suffix_tokens_def is_word_def)

lemma space_not_word: "is_space c \<Longrightarrow> \<not> is_word c"
  by (auto simp: is_space_def is_word_def Let_def)

lemma is_space_blank: "is_space CHR '' ''"
  by (simp add: is_space_def)

lemma blank_not_word: "\<not> is_word CHR '' ''"
  by (simp add: is_word_def)

lemma toLowerCase_char_idem: "toLowerCase_char (toLowerCase_char c) = toLowerCase_char c"
proof -
  have "(of_char c :: nat) < 256" by simp
  have *: "of_char (char_of (of_char c + 32 :: nat)) = (of_char c + 32 :: nat)" if "of_char c \<le> (222::nat)"
    using that by simp
  show ?thesis
    by (auto simp: toLowerCase_char_def Let_def *)
qed

lemma blank_clean: "toLowerCase_char CHR '' '' = CHR '' ''" "\<not> is_punctuation CHR '' ''"
  by (simp_all add: toLowerCase_char_def is_punctuation_def)

subsection \<open>The characters of a canonical key\<close>

text \<open>
  No step brings in a character other than SPACE, so a canonical key consists of
  characters that lower-casing and the removal of punctuation leave alone.
\<close>

lemma set_remove_suffixes: "set (remove_suffixes p v) \<subseteq> set v"
proof (induction p v rule: remove_suffixes.induct)
  case (1 prev)
  show ?case by simp
next
  case (2 prev c cs)
  show ?case
  proof (cases "match_suffix prev (c # cs)")
    case None
    with 2(1) show ?thesis by auto
  next
    case (Some t)
    have "set (drop (length t) (c # cs)) \<subseteq> set (c # cs)"
      by (rule set_drop_subset)
    with 2(2)[OF Some] Some show ?thesis by auto
  qed
qed

lemma set_collapse_spaces: "set (collapse_spaces u) \<subseteq> insert CHR '' '' (set u)"
proof (induction u rule: collapse_spaces.induct)
  case 1
  show ?case by simp
next
  case (2 c cs)
  have "set (dropWhile is_space cs) \<subseteq> set cs"
    by (auto dest: set_dropWhileD)
  with 2 show ?case by auto
qed

lemma set_trim: "set (trim x) \<subseteq> set x"
  by (auto simp: trim_def dest!: set_dropWhileD)

lemma canonicalize_clean: "x \<in> set (canonicalize s) \<Longrightarrow> clean_char x"
proof -
  assume "x \<in> set (canonicalize s)"
  then have "x \<in> insert CHR '' '' (set (remove_suffixes None (remove_punctuation (toLowerCase s))))"
    unfolding canonicalize_def using set_trim set_collapse_spaces by blast
  then have "x = CHR '' '' \<or> x \<in> set (remove_punctuation (toLowerCase s))"
    using set_remove_suffixes by blast
  then show ?thesis
    by (auto simp: clean_char_def blank_clean remove_punctuation_def toLowerCase_def toLowerCase_char_idem)
qed

lemma clean_fixed:
  assumes "\<And>x. x \<in> set t \<Longrightarrow> clean_char x"
  shows "remove_punctuation (toLowerCase t) = t"
proof -
  have "toLowerCase t = t"
    unfolding toLowerCase_def using assms by (intro map_idI) (simp add: clean_char_def)
  moreover have "remove_punctuation t = t"
    unfolding remove_punctuation_def using assms by (intro filter_True) (simp add: clean_char_def)
  ultimately show ?thesis by simp
qed

subsection \<open>Fixed points of the suffix removal\<close>

lemma no_match_fixed: "no_match p x \<Longrightarrow> remove_suffixes p x = x"
  by (induction x arbitrary: p) auto

lemma length_remove_suffixes: "length (remove_suffixes p v) \<le> length v"
proof (induction p v rule: remove_suffixes.induct)
  case (1 prev)
  show ?case by simp
next
  case (2 prev c cs)
  show ?case
  proof (cases "match_suffix prev (c # cs)")
    case None
    with 2(1) show ?thesis by auto
  next
    case (Some t)
    with 2(2)[OF Some] Some show ?thesis by (auto intro: le_trans)
  qed
qed

lemma match_suffix_token:
  "match_suffix p rest = Some t \<Longrightarrow> t \<in> set suffix_tokens \<and> token_matches rest t \<and> word_boundary p rest"
  by (auto simp: match_suffix_def find_Some_iff split: if_splits)

lemma match_suffix_None_iff:
  "match_suffix p rest = None \<longleftrightarrow> \<not> (word_boundary p rest \<and> (\<exists>t\<in>set suffix_tokens. token_matches rest t))"
  by (auto simp: match_suffix_def find_None_iff)

lemma fixed_no_match: "remove_suffixes p x = x \<Longrightarrow> no_match p x"
proof (induction x arbitrary: p)
  case Nil
  show ?case by simp
next
  case (Cons c cs)
  show ?case
  proof (cases "match_suffix p (c # cs)")
    case None
    with Cons show ?thesis by auto
  next
    case (Some t)
    then have "t \<noteq> []"
      using match_suffix_token suffix_tokens_ends by blast
    then have "length (drop (length t) (c # cs)) < length (c # cs)"
      by (cases t) auto
    moreover have "length (remove_suffixes (Some (last t)) (drop (length t) (c # cs)))
        \<le> length (drop (length t) (c # cs))"
      by (rule length_remove_suffixes)
    ultimately have "length (remove_suffixes p (c # cs)) < length (c # cs)"
      using Some by simp
    with Cons(2) show ?thesis by simp
  qed
qed

subsection \<open>No single removed word survives the suffix removal\<close>

text \<open>
  A match is cut out between two word boundaries, so the characters on its two sides
  are not word characters and cannot join into a word.  A single removed word that is
  a whole word of the output is therefore a whole word of the input at a position
  that the scan reaches, where it would have been removed.  \<open>P\<close> is the character
  before the output, \<open>p\<close> the one before the input.
\<close>

lemma word_boundary_Cons: "word_boundary p (c # cs) = (is_word_opt p \<noteq> is_word c)"
  by (simp add: word_boundary_def)

lemma word_boundary_after_word:
  "is_word l \<Longrightarrow> word_boundary (Some l) r = (r = [] \<or> \<not> is_word (hd r))"
  by (cases r) (simp_all add: word_boundary_def)

lemma match_suffix_starts_word: "match_suffix p (d # ds) = Some t \<Longrightarrow> is_word d"
proof -
  assume "match_suffix p (d # ds) = Some t"
  then have "t \<in> set suffix_tokens" "prefix t (d # ds)"
    by (auto dest: match_suffix_token simp: token_matches_def)
  then have "t \<noteq> []" "is_word (hd t)"
    using suffix_tokens_ends [of t] by simp_all
  with \<open>prefix t (d # ds)\<close> show ?thesis
    by (cases t) simp_all
qed

lemma match_suffix_inside_word:
  "is_word_opt p \<Longrightarrow> is_word d \<Longrightarrow> match_suffix p (d # ds) = None"
  by (simp add: match_suffix_def word_boundary_Cons)

lemma remove_suffixes_inside_word:
  "is_word_opt p \<Longrightarrow> is_word d \<Longrightarrow> remove_suffixes p (d # ds) = d # remove_suffixes (Some d) ds"
  by (simp add: match_suffix_inside_word)

lemma word_prefix_of_output:
  "is_word_opt p \<Longrightarrow> list_all is_word w \<Longrightarrow> prefix w (remove_suffixes p cs) \<Longrightarrow>
     prefix w cs \<and>
     remove_suffixes p cs = w @ remove_suffixes (if w = [] then p else Some (last w)) (drop (length w) cs)"
proof (induction w arbitrary: p cs)
  case Nil
  show ?case by simp
next
  case (Cons a w)
  from Cons.prems(3) obtain d ds where cs: "cs = d # ds"
    by (cases cs) auto
  have d: "is_word d"
  proof (cases "match_suffix p (d # ds)")
    case None
    with Cons.prems(2,3) cs show ?thesis by auto
  next
    case (Some t)
    then show ?thesis by (rule match_suffix_starts_word)
  qed
  then have out: "remove_suffixes p cs = d # remove_suffixes (Some d) ds"
    by (simp only: cs remove_suffixes_inside_word [OF Cons.prems(1)])
  with Cons.prems(3) have a: "a = d" and pre: "prefix w (remove_suffixes (Some d) ds)"
    by auto
  have IH: "prefix w ds \<and>
     remove_suffixes (Some d) ds =
       w @ remove_suffixes (if w = [] then Some d else Some (last w)) (drop (length w) ds)"
    using Cons.prems(2) by (intro Cons.IH [of "Some d" ds] pre) (simp_all add: d)
  have "remove_suffixes p cs = d # w @ remove_suffixes (if w = [] then Some d else Some (last w)) (drop (length w) ds)"
    using IH by (simp only: out)
  then have "remove_suffixes p cs =
      (a # w) @ remove_suffixes (if a # w = [] then p else Some (last (a # w))) (drop (length (a # w)) cs)"
    by (simp del: remove_suffixes.simps add: cs a)
  moreover have "prefix (a # w) cs"
    using IH by (simp add: a cs)
  ultimately show ?case
    by (rule conjI [rotated])
qed

lemma no_simple_remove_suffixes:
  "is_word_opt P = is_word_opt p \<or> v = [] \<or> \<not> is_word (hd v) \<Longrightarrow>
     no_simple P (remove_suffixes p v)"
proof (induction p v arbitrary: P rule: remove_suffixes.induct)
  case (1 prev)
  show ?case by simp
next
  case (2 prev c cs)
  show ?case
  proof (cases "match_suffix prev (c # cs)")
    case (Some t)
    then have t: "t \<in> set suffix_tokens" "token_matches (c # cs) t"
      by (auto dest: match_suffix_token)
    then have "is_word (last t)"
      using suffix_tokens_ends by blast
    with t(2) have "drop (length t) (c # cs) = [] \<or> \<not> is_word (hd (drop (length t) (c # cs)))"
      by (simp add: token_matches_def word_boundary_after_word)
    then have "no_simple P (remove_suffixes (Some (last t)) (drop (length t) (c # cs)))"
      by (intro 2(2)[OF Some]) blast
    with Some show ?thesis by simp
  next
    case None
    let ?out = "remove_suffixes (Some c) cs"
    have rest: "no_simple (Some c) ?out"
      by (intro 2(1)[OF None]) simp
    have "\<not> simple_match P (c # ?out)"
    proof
      assume "simple_match P (c # ?out)"
      then obtain t where bd: "word_boundary P (c # ?out)"
        and t: "t \<in> set simple_tokens" and tm: "token_matches (c # ?out) t"
        by (auto simp: simple_match_def)
      from t have tw: "t \<noteq> []" "list_all is_word t"
        using simple_tokens_word by blast+
      then obtain a w where tcons: "t = a # w"
        by (cases t) auto
      from tm tcons have a: "a = c" and pre: "prefix w ?out"
        by (auto simp: token_matches_def)
      from tw tcons a have c: "is_word c" and w: "list_all is_word w"
        by auto
      have last_t: "(if w = [] then Some c else Some (last w)) = Some (last t)"
        using tcons a by simp
      have lw: "is_word (last t)"
        using tw by (metis last_in_set list_all_iff)
      from word_prefix_of_output [of "Some c" w cs] c w pre
      have pw: "prefix w cs"
        and out: "?out = w @ remove_suffixes (Some (last t)) (drop (length w) cs)"
        by (simp_all add: last_t)
      have pt: "prefix t (c # cs)"
        using pw tcons a by simp
      have "drop (length t) (c # ?out) = remove_suffixes (Some (last t)) (drop (length w) cs)"
        using tcons by (subst out) simp
      with tm have bo: "word_boundary (Some (last t)) (remove_suffixes (Some (last t)) (drop (length w) cs))"
        by (simp add: token_matches_def)
      have "word_boundary (Some (last t)) (drop (length w) cs)"
      proof (rule ccontr)
        assume "\<not> word_boundary (Some (last t)) (drop (length w) cs)"
        then obtain d ds where r: "drop (length w) cs = d # ds" and d: "is_word d"
          using lw by (cases "drop (length w) cs") (auto simp: word_boundary_after_word)
        then have "remove_suffixes (Some (last t)) (drop (length w) cs) = d # remove_suffixes (Some d) ds"
          using lw by (simp only: remove_suffixes_inside_word is_word_opt.simps)
        with bo d lw show False
          by (simp add: word_boundary_Cons)
      qed
      then have "token_matches (c # cs) t"
        using pt tcons a by (auto simp: token_matches_def)
      moreover have "t \<in> set suffix_tokens"
        using t by (simp add: suffix_tokens_split)
      moreover have "word_boundary prev (c # cs)"
      proof -
        from bd c have "\<not> is_word_opt P"
          by (simp add: word_boundary_Cons)
        with 2(3) c have "\<not> is_word_opt prev"
          by simp
        with c show ?thesis
          by (simp add: word_boundary_Cons)
      qed
      ultimately show False
        using None by (auto simp: match_suffix_None_iff)
    qed
    with rest None show ?thesis by simp
  qed
qed

subsection \<open>Collapsing and trimming create no single removed word\<close>

lemma no_simple_cong: "is_word_opt P = is_word_opt Q \<Longrightarrow> no_simple P x = no_simple Q x"
  by (cases x) (simp_all add: simple_match_def word_boundary_def)

lemma simple_match_parts:
  assumes "simple_match P rest"
  obtains c w r where "rest = c # w @ r" "c # w \<in> set simple_tokens" "list_all is_word (c # w)"
    "\<not> is_word_opt P" "word_boundary (Some (last (c # w))) r"
proof -
  from assms obtain t where bd: "word_boundary P rest"
    and t: "t \<in> set simple_tokens" and tm: "token_matches rest t"
    by (auto simp: simple_match_def)
  from t have tw: "t \<noteq> []" "list_all is_word t"
    using simple_tokens_word by blast+
  then obtain c w where tc: "t = c # w"
    by (cases t) auto
  from tm obtain r where r: "rest = t @ r"
    by (auto simp: token_matches_def prefix_def)
  with tm have "word_boundary (Some (last t)) r"
    by (simp add: token_matches_def)
  moreover have "\<not> is_word_opt P"
    using bd r tc tw by (simp add: word_boundary_Cons)
  ultimately show ?thesis
    using that [of c w r] r tc t tw by simp
qed

lemma simple_matchI:
  "c # w \<in> set simple_tokens \<Longrightarrow> \<not> is_word_opt P \<Longrightarrow> word_boundary (Some (last (c # w))) r
     \<Longrightarrow> simple_match P (c # w @ r)"
proof -
  assume t: "c # w \<in> set simple_tokens" and P: "\<not> is_word_opt P"
    and r: "word_boundary (Some (last (c # w))) r"
  from t have "is_word c"
    using simple_tokens_word [of "c # w"] by simp
  with P have "word_boundary P (c # w @ r)"
    by (simp add: word_boundary_Cons)
  moreover have "token_matches (c # w @ r) (c # w)"
    using r by (simp add: token_matches_def)
  ultimately show ?thesis
    using t unfolding simple_match_def by blast
qed

lemma no_simple_dropWhile:
  "no_simple P x \<Longrightarrow> \<not> is_word_opt P \<Longrightarrow> \<not> is_word_opt Q \<Longrightarrow> no_simple Q (dropWhile is_space x)"
proof (induction x arbitrary: P)
  case Nil
  show ?case by simp
next
  case (Cons c cs)
  show ?case
  proof (cases "is_space c")
    case True
    then have c: "\<not> is_word_opt (Some c)"
      by (simp add: space_not_word)
    have "no_simple (Some c) cs"
      using Cons.prems(1) by simp
    then have "no_simple Q (dropWhile is_space cs)"
      using c Cons.prems(3) by (rule Cons.IH)
    with True show ?thesis by simp
  next
    case False
    have "no_simple Q (c # cs)"
      using Cons.prems no_simple_cong [of P Q "c # cs"] by simp
    with False show ?thesis by simp
  qed
qed

lemma word_prefix_collapse:
  "list_all is_word w \<Longrightarrow> prefix w (collapse_spaces x) \<Longrightarrow>
     (\<exists>r. x = w @ r \<and> collapse_spaces x = w @ collapse_spaces r)"
proof (induction w arbitrary: x)
  case Nil
  show ?case by simp
next
  case (Cons a w)
  from Cons.prems(2) obtain d ds where x: "x = d # ds"
    by (cases x) auto
  have "\<not> is_space d"
  proof
    assume "is_space d"
    with Cons.prems(2) x have "a = CHR '' ''" by simp
    with Cons.prems(1) show False
      using space_not_word [OF is_space_blank] by simp
  qed
  with Cons.prems x have "a = d" "prefix w (collapse_spaces ds)" "list_all is_word w"
    by simp_all
  with Cons.IH [of ds] obtain r where "ds = w @ r" "collapse_spaces ds = w @ collapse_spaces r"
    by blast
  with x \<open>a = d\<close> \<open>\<not> is_space d\<close> show ?case by simp
qed

lemma word_boundary_collapse:
  "word_boundary p (collapse_spaces r) = word_boundary p r"
proof (cases r)
  case Nil
  then show ?thesis by simp
next
  case (Cons d ds)
  then show ?thesis
    using space_not_word [of d] space_not_word [OF is_space_blank]
    by (simp add: word_boundary_Cons)
qed

lemma simple_match_collapse:
  assumes "simple_match P (c # collapse_spaces cs)"
  shows "simple_match P (c # cs)"
proof -
  from assms obtain a w r where parts: "c # collapse_spaces cs = a # w @ r"
    "a # w \<in> set simple_tokens" "list_all is_word (a # w)" "\<not> is_word_opt P"
    "word_boundary (Some (last (a # w))) r"
    by (rule simple_match_parts)
  then have "prefix w (collapse_spaces cs)" "list_all is_word w" "a = c"
    by simp_all
  then obtain r' where r': "cs = w @ r'" "collapse_spaces cs = w @ collapse_spaces r'"
    using word_prefix_collapse by blast
  with parts(1) have "r = collapse_spaces r'"
    by simp
  with parts(5) have "word_boundary (Some (last (a # w))) r'"
    by (simp add: word_boundary_collapse)
  then have "simple_match P (a # w @ r')"
    using parts(2,4) by (intro simple_matchI)
  then show ?thesis
    using r' \<open>a = c\<close> by simp
qed

lemma no_simple_collapse: "no_simple P x \<Longrightarrow> no_simple P (collapse_spaces x)"
proof (induction x arbitrary: P rule: collapse_spaces.induct)
  case 1
  show ?case by simp
next
  case (2 c cs)
  show ?case
  proof (cases "is_space c")
    case True
    have "no_simple (Some CHR '' '') (dropWhile is_space cs)"
      using 2(3) True
      by (intro no_simple_dropWhile [of "Some c"]) (simp_all add: space_not_word blank_not_word)
    then have "no_simple (Some CHR '' '') (collapse_spaces (dropWhile is_space cs))"
      using True by (intro 2(1))
    moreover have "\<not> simple_match P (CHR '' '' # collapse_spaces (dropWhile is_space cs))"
    proof
      assume "simple_match P (CHR '' '' # collapse_spaces (dropWhile is_space cs))"
      then obtain a w r where "CHR '' '' # collapse_spaces (dropWhile is_space cs) = a # w @ r"
        "list_all is_word (a # w)"
        by (rule simple_match_parts)
      then show False
        using space_not_word [OF is_space_blank] by simp
    qed
    ultimately show ?thesis
      using True by simp
  next
    case False
    have "no_simple (Some c) (collapse_spaces cs)"
      using 2(3) False by (intro 2(2)) simp_all
    moreover have "\<not> simple_match P (c # collapse_spaces cs)"
      using 2(3) simple_match_collapse by auto
    ultimately show ?thesis
      using False by simp
  qed
qed

lemma word_boundary_append_spaces:
  "list_all is_space ws \<Longrightarrow> is_word l \<Longrightarrow> word_boundary (Some l) r \<Longrightarrow> word_boundary (Some l) (r @ ws)"
  by (cases r; cases ws) (auto simp: word_boundary_Cons word_boundary_def space_not_word)

lemma simple_match_append_spaces:
  assumes "list_all is_space ws" and "simple_match P y"
  shows "simple_match P (y @ ws)"
proof -
  from assms(2) obtain a w r where parts: "y = a # w @ r"
    "a # w \<in> set simple_tokens" "list_all is_word (a # w)" "\<not> is_word_opt P"
    "word_boundary (Some (last (a # w))) r"
    by (rule simple_match_parts)
  have "is_word (last (a # w))"
    using parts(3) by (metis last_in_set list.distinct(1) list_all_iff)
  then have "word_boundary (Some (last (a # w))) (r @ ws)"
    using assms(1) parts(5) by (intro word_boundary_append_spaces)
  then have "simple_match P (a # w @ (r @ ws))"
    using parts(2,4) by (intro simple_matchI)
  then show ?thesis
    using parts(1) by simp
qed

lemma no_simple_append_spaces:
  "no_simple P (y @ ws) \<Longrightarrow> list_all is_space ws \<Longrightarrow> no_simple P y"
proof (induction y arbitrary: P)
  case Nil
  show ?case by simp
next
  case (Cons c cs)
  have "\<not> simple_match P (c # cs)"
    using Cons.prems simple_match_append_spaces [of ws P "c # cs"] by auto
  moreover have "no_simple (Some c) cs"
    using Cons by simp
  ultimately show ?case by simp
qed

lemma rtrim_decompose:
  "y = rev (dropWhile is_space (rev y)) @ rev (takeWhile is_space (rev y))"
proof -
  have "rev y = takeWhile is_space (rev y) @ dropWhile is_space (rev y)"
    by simp
  then have "rev (rev y) = rev (takeWhile is_space (rev y) @ dropWhile is_space (rev y))"
    by (rule arg_cong)
  then show ?thesis
    by (simp only: rev_rev_ident rev_append)
qed

lemma rtrim_spaces: "list_all is_space (rev (takeWhile is_space (rev y)))"
  by (auto simp: list_all_iff dest: set_takeWhileD)

lemma no_simple_trim: "no_simple None x \<Longrightarrow> no_simple None (trim x)"
proof -
  assume "no_simple None x"
  then have "no_simple None (dropWhile is_space x)"
    by (intro no_simple_dropWhile [of None]) simp_all
  then have "no_simple None (rev (dropWhile is_space (rev (dropWhile is_space x)))
      @ rev (takeWhile is_space (rev (dropWhile is_space x))))"
    by (simp only: rtrim_decompose [symmetric])
  then show ?thesis
    unfolding trim_def by (rule no_simple_append_spaces) (rule rtrim_spaces)
qed

lemma no_match_iff:
  "no_match p x \<longleftrightarrow> no_simple p x \<and> \<not> whole_word ''national association'' p x"
  by (induction x arbitrary: p)
     (auto simp: match_suffix_None_iff suffix_tokens_split simple_match_def)

subsection \<open>Collapsing and trimming are idempotent\<close>

lemma dropWhile_no_space: "cs = [] \<or> \<not> is_space (hd cs) \<Longrightarrow> dropWhile is_space cs = cs"
  by (cases cs) auto

lemma tidy_fixed: "tidy x \<Longrightarrow> collapse_spaces x = x"
  by (induction x) (auto simp: dropWhile_no_space)

lemma collapse_spaces_head:
  "collapse_spaces y = [] \<or> \<not> is_space (hd (collapse_spaces y)) \<longleftrightarrow> y = [] \<or> \<not> is_space (hd y)"
  by (cases y) (auto simp: is_space_blank)

lemma tidy_collapse_spaces: "tidy (collapse_spaces u)"
proof (induction u rule: collapse_spaces.induct)
  case 1
  show ?case by simp
next
  case (2 c cs)
  show ?case
  proof (cases "is_space c")
    case True
    have "dropWhile is_space cs = [] \<or> \<not> is_space (hd (dropWhile is_space cs))"
      using hd_dropWhile [of is_space cs] by blast
    then have "collapse_spaces (dropWhile is_space cs) = []
        \<or> \<not> is_space (hd (collapse_spaces (dropWhile is_space cs)))"
      by (simp only: collapse_spaces_head)
    with 2(1) True show ?thesis
      by (simp add: is_space_blank)
  next
    case False
    with 2(2) show ?thesis by simp
  qed
qed

lemma tidy_Cons: "tidy (c # cs) \<Longrightarrow> tidy cs"
  by simp

lemma tidy_dropWhile: "tidy x \<Longrightarrow> tidy (dropWhile P x)"
  by (induction x) auto

lemma tidy_prefix: "tidy (y @ z) \<Longrightarrow> tidy y"
proof (induction y)
  case Nil
  show ?case by simp
next
  case (Cons c cs)
  then show ?case
    by (cases cs) (auto split: if_splits)
qed

lemma tidy_trim: "tidy x \<Longrightarrow> tidy (trim x)"
proof -
  assume "tidy x"
  then have "tidy (dropWhile is_space x)"
    by (rule tidy_dropWhile)
  then have "tidy (rev (dropWhile is_space (rev (dropWhile is_space x)))
      @ rev (takeWhile is_space (rev (dropWhile is_space x))))"
    by (simp only: rtrim_decompose [symmetric])
  then show ?thesis
    unfolding trim_def by (rule tidy_prefix)
qed

lemma trim_idem: "trim (trim x) = trim x"
proof -
  define y where "y = dropWhile is_space x"
  define z where "z = rev (dropWhile is_space (rev y))"
  have y: "y = z @ rev (takeWhile is_space (rev y))"
    unfolding z_def by (rule rtrim_decompose)
  have "z = [] \<or> \<not> is_space (hd z)"
  proof (cases z)
    case Nil
    then show ?thesis by simp
  next
    case (Cons a as)
    with y have "y \<noteq> []" "hd y = a"
      by (metis append_is_Nil_conv list.distinct(1), metis hd_append2 list.distinct(1) list.sel(1))
    then have "\<not> is_space a"
      using hd_dropWhile [of is_space x] by (simp add: y_def)
    with Cons show ?thesis by simp
  qed
  then have front: "dropWhile is_space z = z"
    by (rule dropWhile_no_space)
  have "dropWhile is_space (rev z) = rev z"
    by (simp add: z_def)
  then have "rev (dropWhile is_space (rev (dropWhile is_space z))) = z"
    by (simp add: front)
  then show ?thesis
    by (simp add: trim_def y_def z_def)
qed

subsection \<open>Idempotence of the canonicalizer\<close>

lemma length_collapse_spaces: "length (collapse_spaces x) \<le> length x"
proof (induction x rule: collapse_spaces.induct)
  case 1
  show ?case by simp
next
  case (2 c cs)
  have "length (dropWhile is_space cs) \<le> length cs"
    by (rule length_dropWhile_le)
  with 2 show ?case
    by (auto intro: le_trans)
qed

lemma length_trim: "length (trim x) \<le> length x"
  unfolding trim_def
  by (metis length_dropWhile_le length_rev le_trans)

lemma length_remove_suffixes_strict:
  "\<not> no_match p x \<Longrightarrow> length (remove_suffixes p x) < length x"
proof (induction x arbitrary: p)
  case Nil
  then show ?case by simp
next
  case (Cons c cs)
  show ?case
  proof (cases "match_suffix p (c # cs)")
    case None
    with Cons show ?thesis by auto
  next
    case (Some t)
    then have "t \<noteq> []"
      using match_suffix_token suffix_tokens_ends by blast
    then have "length (drop (length t) (c # cs)) < length (c # cs)"
      by (cases t) auto
    moreover have "length (remove_suffixes (Some (last t)) (drop (length t) (c # cs)))
        \<le> length (drop (length t) (c # cs))"
      by (rule length_remove_suffixes)
    ultimately show ?thesis
      using Some by simp
  qed
qed

lemma canonicalize_no_simple: "no_simple None (canonicalize s)"
  unfolding canonicalize_def
  by (intro no_simple_trim no_simple_collapse no_simple_remove_suffixes) simp

lemma canonicalize_tidy: "tidy (canonicalize s)"
  unfolding canonicalize_def by (intro tidy_trim tidy_collapse_spaces)

lemma canonicalize_trimmed: "trim (canonicalize s) = canonicalize s"
  unfolding canonicalize_def by (rule trim_idem)

lemma canonicalize_idempotent_iff:
  "canonicalize (canonicalize s) = canonicalize s
     \<longleftrightarrow> \<not> has_national_association (canonicalize s)"
proof
  assume fixed: "canonicalize (canonicalize s) = canonicalize s"
  show "\<not> has_national_association (canonicalize s)"
  proof
    assume "has_national_association (canonicalize s)"
    then have "\<not> no_match None (canonicalize s)"
      by (simp add: no_match_iff has_national_association_def)
    then have "length (remove_suffixes None (canonicalize s)) < length (canonicalize s)"
      by (rule length_remove_suffixes_strict)
    moreover have "remove_punctuation (toLowerCase (canonicalize s)) = canonicalize s"
      by (rule clean_fixed) (rule canonicalize_clean)
    then have "canonicalize (canonicalize s)
        = trim (collapse_spaces (remove_suffixes None (canonicalize s)))"
      by (simp add: canonicalize_def [of "canonicalize s"])
    then have "length (canonicalize (canonicalize s)) \<le> length (remove_suffixes None (canonicalize s))"
      using length_trim length_collapse_spaces le_trans by metis
    ultimately show False
      using fixed by simp
  qed
next
  assume "\<not> has_national_association (canonicalize s)"
  then have "no_match None (canonicalize s)"
    by (simp add: no_match_iff has_national_association_def canonicalize_no_simple)
  then have "remove_suffixes None (canonicalize s) = canonicalize s"
    by (rule no_match_fixed)
  moreover have "remove_punctuation (toLowerCase (canonicalize s)) = canonicalize s"
    by (rule clean_fixed) (rule canonicalize_clean)
  ultimately have "canonicalize (canonicalize s) = trim (collapse_spaces (canonicalize s))"
    by (simp add: canonicalize_def [of "canonicalize s"])
  then show "canonicalize (canonicalize s) = canonicalize s"
    by (simp add: tidy_fixed canonicalize_tidy canonicalize_trimmed)
qed

lemma cleanName_JStr: "cleanName (JStr s) = canonicalize s"
  by (simp add: canonicalize_def toLowerCase_def remove_punctuation_def trim_def)

text \<open>
  C4 (idempotence of the canonicalizer), as amended: a canonical key is a fixed point
  of \<^verbatim>\<open>cleanName\<close> exactly when it does not contain \<^verbatim>\<open>national association\<close> as whole
  words.  The other removed words never occur as whole words in a canonical key; the
  phrase of two words can, when the input has something other than one SPACE between
  them that the later steps turn into one SPACE.
\<close>

theorem cleanName_idempotent_iff:
  "cleanName (JStr (cleanName (JStr s))) = cleanName (JStr s)
     \<longleftrightarrow> \<not> has_national_association (cleanName (JStr s))"
  unfolding cleanName_JStr by (rule canonicalize_idempotent_iff)

theorem cleanName_idempotent_iff_witness:
  "cleanName (JStr (cleanName (JStr ''Acme Bank, N.A.''))) = cleanName (JStr ''Acme Bank, N.A.'')"
proof -
  have "\<not> has_national_association (cleanName (JStr ''Acme Bank, N.A.''))"
    by code_simp
  then show ?thesis
    using cleanName_idempotent_iff [of "''Acme Bank, N.A.''"] by blast
qed

text \<open>
  C4 as stated fails: \<^verbatim>\<open>"First National Inc Association"\<close> has the canonical key
  \<^verbatim>\<open>first national association\<close>, whose canonical key is \<^verbatim>\<open>first\<close>; the same happens
  with two spaces between the two words.
\<close>

theorem cleanName_idempotent_counterexample:
  "cleanName (JStr (cleanName (JStr ''First National Inc Association'')))
     \<noteq> cleanName (JStr ''First National Inc Association'')
   \<and> cleanName (JStr (cleanName (JStr ''National  Association'')))
     \<noteq> cleanName (JStr ''National  Association'')"
  by code_simp

section \<open>Facts about the standardizer\<close>

lemma cleanName_nonempty_truthy: "cleanName x \<noteq> [] \<Longrightarrow> truthy x"
  by (cases x) auto

lemma cleanName_jpmorgan: "cleanName (JStr ''JPMorgan Chase & Co.'') = ''jpmorgan chase''"
  by code_simp

lemma cleanName_constructor: "cleanName (JStr ''Constructor Inc'') = ''constructor''"
  by code_simp


lemma cleanName_acme: "cleanName (JStr ''Acme'') = ''acme''"
  by code_simp

lemma cleanName_inc: "cleanName (JStr ''Inc.'') = []"
  by code_simp

lemma threshold_positive: "0 < confidence_threshold"
  by (simp add: confidence_threshold_def)

text \<open>
  The threshold is the double nearest to \<open>7 / 20\<close>: a multiple of \<open>2 ^ -54\<close> with a
  mantissa of 53 bits, at most half a unit in the last place away.
\<close>

lemma confidence_threshold_nearest_double:
  "confidence_threshold = 6305039478318694 / 2 ^ 54"
  "2 ^ 52 \<le> (6305039478318694 :: nat)" "(6305039478318694 :: nat) < 2 ^ 53"
  "\<bar>7 / 20 - confidence_threshold\<bar> \<le> 1 / 2 ^ 55"
  by (simp_all add: confidence_threshold_def)

text \<open>
  Every falsy input and every input that is not a string gives \<^verbatim>\<open>"UNKNOWN"\<close>, in every
  state.
\<close>

lemma standardizeName_unusable_input:
  "\<not> truthy x \<or> (\<forall>s. x \<noteq> JStr s) \<Longrightarrow> standardizeName st x = Inr UNKNOWN"
  by (cases x) (auto simp: standardizeName_def)

text \<open>
  With a knowledge base whose labels are non-empty strings and a fuzzy index that
  answers with keys of \<^verbatim>\<open>variants\<close> only, every input whose canonical key is not the
  name of an inherited member gives a non-empty string.
\<close>

lemma standardizeName_label_or_unknown:
  assumes "knowledgeBase st = Some kb" and "variants kb = Some vs" and "fuse st = Some search"
    and labels: "\<And>k v. (k, v) \<in> set vs \<Longrightarrow> \<exists>l. v = JStr l \<and> l \<noteq> []"
    and corpus: "\<And>q r. r \<in> set (search q) \<Longrightarrow> item r \<in> fst ` set vs"
    and own: "Object_prototype (cleanName x) = None \<or> cleanName x \<in> fst ` set vs"
  shows "\<exists>l. standardizeName st x = Inr (JStr l) \<and> l \<noteq> []"
proof -
  have get: "\<exists>l. js_get vs k = JStr l \<and> l \<noteq> []" if "k \<in> fst ` set vs" for k
  proof -
    from that obtain v where "map_of vs k = Some v"
      by (metis map_of_eq_None_iff not_Some_eq)
    moreover from this have "(k, v) \<in> set vs"
      by (rule map_of_SomeD)
    ultimately show ?thesis
      using labels by (auto simp: js_get_def)
  qed
  show ?thesis
  proof (cases "truthy x \<and> cleanName x \<noteq> []")
    case False
    then show ?thesis
      by (auto simp: standardizeName_def UNKNOWN_def)
  next
    case True
    show ?thesis
    proof (cases "truthy (js_get vs (cleanName x))")
      case exact: True
      have "cleanName x \<in> fst ` set vs"
      proof (rule ccontr)
        assume out: "cleanName x \<notin> fst ` set vs"
        then have "map_of vs (cleanName x) = None"
          by (simp add: map_of_eq_None_iff)
        with own out exact show False
          by (simp add: js_get_def)
      qed
      then show ?thesis
        using get True exact assms(1,2) by (auto simp: standardizeName_def)
    next
      case fuzzy: False
      show ?thesis
      proof (cases "search (cleanName x)")
        case Nil
        then show ?thesis
          using True fuzzy assms(1-3)
          by (simp add: standardizeName_def fuzzy_match_def UNKNOWN_def)
      next
        case (Cons r rs)
        then have "item r \<in> fst ` set vs"
          using corpus [of r "cleanName x"] by simp
        then obtain l where "js_get vs (item r) = JStr l" "l \<noteq> []"
          using get by blast
        then show ?thesis
          using True fuzzy assms(1-3) Cons
          by (simp add: standardizeName_def fuzzy_match_def UNKNOWN_def)
      qed
    qed
  qed
qed

text \<open>
  C1 (totality of \<^verbatim>\<open>standardizeName\<close>).  The claim asks for a label or
  \<^verbatim>\<open>"UNKNOWN"\<close> on every input.  On the input \<^verbatim>\<open>"Constructor Inc"\<close>, whose key is
  \<^verbatim>\<open>constructor\<close>, the exact lookup \<^verbatim>\<open>knowledgeBase.variants[cleaned]\<close> finds the
  function \<^verbatim>\<open>Object\<close> that the mapping inherits, and \<^verbatim>\<open>standardizeName\<close> returns that
  function, with the knowledge base of the first scenario and any fuzzy index.
\<close>

theorem standardizeName_returns_inherited_member:
  "standardizeName (st\<lparr>knowledgeBase := Some scenario_kb\<rparr>) (JStr ''Constructor Inc'')
     = Inr (JBuiltin ''Object'')"
  by (simp del: cleanName.simps
        add: cleanName_constructor standardizeName_def scenario_kb_def js_get_def
             Object_prototype_def)

text \<open>
  C2 (exact match before fuzzy match), as amended: when the canonical key of the input
  is not empty and is an own key of \<^verbatim>\<open>variants\<close> with a truthy label,
  \<^verbatim>\<open>standardizeName\<close> returns that label, whatever the fuzzy index is (also when
  there is none).
\<close>

theorem exact_match_precedence:
  assumes "knowledgeBase st = Some kb" and "variants kb = Some vs"
    and "map_of vs (cleanName inputName) = Some label"
    and "truthy label" and "cleanName inputName \<noteq> []"
  shows "standardizeName (st\<lparr>fuse := fz\<rparr>) inputName = Inr label"
proof -
  have "truthy inputName"
    using assms(5) by (rule cleanName_nonempty_truthy)
  then show ?thesis
    using assms by (simp add: standardizeName_def js_get_def)
qed

theorem exact_match_precedence_witness:
  "standardizeName (scenario_state (fixed_search \<lparr>item = ''acme'', score = 0\<rparr>))
     (JStr ''JPMorgan Chase & Co.'') = Inr (JStr ''JPMorgan Chase & Co.'')"
  using exact_match_precedence
      [of "scenario_state (fixed_search \<lparr>item = ''acme'', score = 0\<rparr>)" scenario_kb
      "[(''jpmorgan chase'', JStr ''JPMorgan Chase & Co.'')]" "JStr ''JPMorgan Chase & Co.''"
      "JStr ''JPMorgan Chase & Co.''" "Some (fixed_search \<lparr>item = ''acme'', score = 0\<rparr>)"]
  by (simp del: cleanName.simps
        add: cleanName_jpmorgan scenario_state_def scenario_kb_def initial_state_def)

text \<open>
  C2 as stated fails: the key of \<^verbatim>\<open>"Inc."\<close> is the empty string, which is a key of the
  index of \<open>blank_kb\<close> with the label \<^verbatim>\<open>"Holding"\<close>, and the result is \<^verbatim>\<open>"UNKNOWN"\<close>;
  the key of \<^verbatim>\<open>"Acme"\<close> is in the index with the label \<^verbatim>\<open>""\<close>, and the result is
  \<^verbatim>\<open>"UNKNOWN"\<close> when the fuzzy index finds nothing.
\<close>

theorem exact_match_precedence_counterexample:
  "map_of (the (variants blank_kb)) (cleanName (JStr ''Inc.'')) = Some (JStr ''Holding'')
   \<and> standardizeName (blank_state (exact_search [])) (JStr ''Inc.'') = Inr (JStr ''UNKNOWN'')
   \<and> map_of (the (variants blank_kb)) (cleanName (JStr ''Acme'')) = Some (JStr [])
   \<and> standardizeName (blank_state (exact_search [])) (JStr ''Acme'') = Inr (JStr ''UNKNOWN'')"
  by (simp del: cleanName.simps
        add: cleanName_inc cleanName_acme standardizeName_def blank_state_def blank_kb_def
             initial_state_def js_get_def fuzzy_match_def exact_search_def UNKNOWN_def)



text \<open>
  C10 (a falsy label is no exact match), as amended: when the canonical key is an own
  key of \<^verbatim>\<open>variants\<close> with a falsy label, the exact match never answers.  If the key is
  not empty, the test at line 59 fails and the result of \<^verbatim>\<open>standardizeName\<close> is that of
  the fuzzy match of lines 63 to 70; if the key is empty, line 56 has returned
  \<^verbatim>\<open>"UNKNOWN"\<close> before either branch.
\<close>

theorem falsy_label_falls_through:
  assumes "knowledgeBase st = Some kb" and "variants kb = Some vs"
    and "map_of vs (cleanName inputName) = Some label"
    and "\<not> truthy label"
  shows "(cleanName inputName \<noteq> [] \<longrightarrow>
            standardizeName st inputName = fuzzy_match (fuse st) vs (cleanName inputName))
       \<and> (cleanName inputName = [] \<longrightarrow>
            standardizeName st inputName = Inr (JStr ''UNKNOWN''))"
proof (intro conjI impI)
  assume key: "cleanName inputName \<noteq> []"
  then have "truthy inputName"
    by (rule cleanName_nonempty_truthy)
  then show "standardizeName st inputName = fuzzy_match (fuse st) vs (cleanName inputName)"
    using assms key by (simp add: standardizeName_def js_get_def)
next
  assume "cleanName inputName = []"
  then show "standardizeName st inputName = Inr (JStr ''UNKNOWN'')"
    by (simp add: standardizeName_def UNKNOWN_def)
qed

theorem falsy_label_falls_through_witness:
  "standardizeName (blank_state (exact_search [[], ''acme''])) (JStr ''Acme'')
     = fuzzy_match (Some (exact_search [[], ''acme''])) (the (variants blank_kb)) ''acme''
   \<and> fuzzy_match (Some (exact_search [[], ''acme''])) (the (variants blank_kb)) ''acme''
     = Inr (JStr [])
   \<and> standardizeName empty_label_state (JStr ''Inc.'') = Inr (JStr ''UNKNOWN'')"
  using falsy_label_falls_through [of "blank_state (exact_search [[], ''acme''])" blank_kb
      "the (variants blank_kb)" "JStr ''Acme''" "JStr []"]
    falsy_label_falls_through [of empty_label_state empty_label_kb
      "the (variants empty_label_kb)" "JStr ''Inc.''" "JStr []"]
  by (simp del: cleanName.simps
        add: cleanName_acme cleanName_inc blank_state_def blank_kb_def initial_state_def
             empty_label_state_def empty_label_kb_def fuzzy_match_def
             exact_search_def js_get_def threshold_positive)

text \<open>
  C10 as stated fails: the key of \<^verbatim>\<open>"Inc."\<close> is the empty string, which is a key of the
  index of \<open>empty_label_kb\<close> with the label \<^verbatim>\<open>""\<close>; the result is the \<^verbatim>\<open>"UNKNOWN"\<close> of
  line 56, not that of the fuzzy path, which finds the entry equal to the key and
  would return its label.
\<close>

theorem falsy_label_counterexample:
  "map_of (the (variants empty_label_kb)) (cleanName (JStr ''Inc.'')) = Some (JStr [])
   \<and> standardizeName empty_label_state (JStr ''Inc.'') = Inr (JStr ''UNKNOWN'')
   \<and> fuzzy_match (fuse empty_label_state) (the (variants empty_label_kb))
        (cleanName (JStr ''Inc.'')) = Inr (JStr [])"
  by (simp del: cleanName.simps
        add: cleanName_inc standardizeName_def empty_label_state_def empty_label_kb_def
             initial_state_def js_get_def fuzzy_match_def exact_search_def UNKNOWN_def
             threshold_positive)

text \<open>
  C6 (first scenario), as amended: \<^verbatim>\<open>"JPMorgan Chase & Co."\<close> canonicalizes to
  \<^verbatim>\<open>jpmorgan chase\<close>, since \<^verbatim>\<open>co\<close> is one of the removed words; this is a key of the
  index, and the exact lookup returns \<^verbatim>\<open>"JPMorgan Chase & Co."\<close> without a fuzzy
  match.
\<close>

theorem scenario_jpmorgan_exact:
  "cleanName (JStr ''JPMorgan Chase & Co.'') = ''jpmorgan chase''
   \<and> js_get (the (variants scenario_kb)) ''jpmorgan chase'' = JStr ''JPMorgan Chase & Co.''
   \<and> standardizeName (st\<lparr>knowledgeBase := Some scenario_kb\<rparr>) (JStr ''JPMorgan Chase & Co.'')
       = Inr (JStr ''JPMorgan Chase & Co.'')"
  by (simp del: cleanName.simps
        add: cleanName_jpmorgan standardizeName_def scenario_kb_def js_get_def)

text \<open>
  C6 as stated fails: the canonical key is not \<^verbatim>\<open>jpmorgan chase co\<close>, and the exact
  lookup of the key succeeds.
\<close>

theorem scenario_jpmorgan_counterexample:
  "cleanName (JStr ''JPMorgan Chase & Co.'') \<noteq> ''jpmorgan chase co''
   \<and> truthy (js_get (the (variants scenario_kb)) (cleanName (JStr ''JPMorgan Chase & Co.'')))"
  by (simp del: cleanName.simps add: cleanName_jpmorgan scenario_kb_def js_get_def)

section \<open>Facts about loading the knowledge base\<close>

text \<open>
  C5 (loading), as amended: \<^verbatim>\<open>initialize\<close> succeeds exactly when the response is ok,
  its body is a JSON object and the Fuse constructor accepts the member
  \<^verbatim>\<open>allKnownVariants\<close>; it then stores the document as it is and the index built
  from that member.  In every other case it reports an error and leaves the fuzzy
  index as it was.  It compares the two members of the document nowhere.
\<close>

theorem initialize_outcome:
  "(\<forall>kb f. outcome = Response True (JsonObject kb) \<and> newFuse (allKnownVariants kb) = Inr f
       \<longrightarrow> initialize newFuse outcome st
             = (st\<lparr>knowledgeBase := Some kb, fuse := Some f\<rparr>, None))
   \<and> ((\<forall>kb f. outcome = Response True (JsonObject kb) \<longrightarrow> newFuse (allKnownVariants kb) \<noteq> Inr f)
       \<longrightarrow> snd (initialize newFuse outcome st) \<noteq> None
           \<and> fuse (fst (initialize newFuse outcome st)) = fuse st)"
  by (auto simp: initialize_def split: fetch_outcome.splits response_body.splits sum.splits)

theorem initialize_outcome_witness:
  "initialize exact_Fuse (Response True (JsonObject scenario_kb)) initial_state
     = (initial_state\<lparr>knowledgeBase := Some scenario_kb,
                      fuse := Some (exact_search [''jpmorgan chase''])\<rparr>, None)
   \<and> snd (initialize exact_Fuse FetchRejected initial_state) \<noteq> None
   \<and> fuse (fst (initialize exact_Fuse FetchRejected initial_state)) = fuse initial_state"
  using initialize_outcome [of "Response True (JsonObject scenario_kb)" exact_Fuse initial_state]
    initialize_outcome [of FetchRejected exact_Fuse initial_state]
  by (simp add: scenario_kb_def)

text \<open>
  C5 as stated fails: \<open>mismatched_kb\<close> loads without an error although its index has a
  key outside the set of known variants, and then the fuzzy match of \<^verbatim>\<open>"Acme"\<close> is
  accepted and yields \<^verbatim>\<open>undefined\<close>; \<open>corpus_only_kb\<close>, which has no mapping, loads
  without an error too.
\<close>

theorem initialize_counterexample:
  "snd (initialize exact_Fuse (Response True (JsonObject mismatched_kb)) initial_state) = None
   \<and> \<not> kb_consistent mismatched_kb
   \<and> standardizeName
        (fst (initialize exact_Fuse (Response True (JsonObject mismatched_kb)) initial_state))
        (JStr ''Acme'') = Inr JUndefined
   \<and> snd (initialize exact_Fuse (Response True (JsonObject corpus_only_kb)) initial_state) = None"
  by (simp del: cleanName.simps
        add: cleanName_acme initialize_def mismatched_kb_def corpus_only_kb_def kb_consistent_def
             standardizeName_def js_get_def Object_prototype_def fuzzy_match_def
             exact_search_def threshold_positive initial_state_def)

section \<open>Facts about the batch runner\<close>

lemma standardizeName_frame:
  "knowledgeBase st' = knowledgeBase st \<Longrightarrow> fuse st' = fuse st
     \<Longrightarrow> standardizeName st' = standardizeName st"
  by (rule ext) (simp add: standardizeName_def Let_def split: option.splits)

lemma displayResults_normalizedResults:
  "normalizedResults (fst (displayResults lc st)) = normalizedResults st"
  by (simp add: displayResults_def split: sum.splits)

text \<open>The loop over one chunk is the loop without chunks over the rows of the chunk.\<close>

lemma process_rows_run:
  "endIdx \<le> length (parsedData st) \<Longrightarrow> i \<le> endIdx \<Longrightarrow>
   process_rows column i endIdx st =
     (st\<lparr>normalizedResults := normalizedResults st @
           fst (unchunked_loop (standardizeName st) column
                  (take (endIdx - i) (drop i (parsedData st))))\<rparr>,
      snd (unchunked_loop (standardizeName st) column
             (take (endIdx - i) (drop i (parsedData st)))))"
proof (induction column i endIdx st rule: process_rows.induct)
  case (1 column i endIdx st)
  show ?case
  proof (cases "i < endIdx")
    case False
    with 1 show ?thesis
      by (subst process_rows.simps) simp
  next
    case True
    with 1(2) have len: "i < length (parsedData st)"
      by simp
    have rows: "take (endIdx - i) (drop i (parsedData st))
       = parsedData st ! i # take (endIdx - Suc i) (drop (Suc i) (parsedData st))"
      using True len by (metis Cons_nth_drop_Suc Suc_diff_Suc take_Suc_Cons)
    show ?thesis
    proof (cases "standardizeName st (js_get (parsedData st ! i) column)")
      case (Inl e)
      then show ?thesis
        using True len rows by (subst process_rows.simps) simp
    next
      case (Inr s)
      let ?st' = "st\<lparr>normalizedResults := normalizedResults st @
              [\<lparr>Input_Firm_Name = js_get (parsedData st ! i) column,
                Standardized_Firm_Name = s\<rparr>]\<rparr>"
      have fr: "standardizeName ?st' = standardizeName st"
        by (rule standardizeName_frame) simp_all
      have IH: "process_rows column (Suc i) endIdx ?st' =
         (?st'\<lparr>normalizedResults := normalizedResults ?st' @
           fst (unchunked_loop (standardizeName ?st') column
                  (take (endIdx - Suc i) (drop (Suc i) (parsedData ?st'))))\<rparr>,
          snd (unchunked_loop (standardizeName ?st') column
                 (take (endIdx - Suc i) (drop (Suc i) (parsedData ?st')))))"
        using 1(1)[OF True _ refl refl Inr] len True 1(2) by simp
      show ?thesis
        using True len Inr
        by (subst process_rows.simps) (simp add: IH fr rows split: prod.splits)
    qed
  qed
qed










lemma processChunk_step:
  "process_rows column processedCount (min (processedCount + chunkSize) totalRows) st = (st', None) \<Longrightarrow>
   processChunk newFuse lc column totalRows processedCount yields st =
     (if min (processedCount + chunkSize) totalRows < totalRows
      then processChunk newFuse lc column totalRows (min (processedCount + chunkSize) totalRows)
             (tl yields)
             (foldl (handle_event newFuse) st' (case yields of [] \<Rightarrow> [] | evs # _ \<Rightarrow> evs))
      else displayResults lc st')"
  by (subst processChunk.simps) (simp add: Let_def)

lemma unchunked_loop_replicate:
  "f (js_get row c) = Inr v \<Longrightarrow>
   unchunked_loop f c (replicate n row) =
     (replicate n \<lparr>Input_Firm_Name = js_get row c, Standardized_Firm_Name = v\<rparr>, None)"
  by (induction n) (simp_all add: Let_def)

text \<open>
  A run that is not quiet: the parser delivers another file during the first yield.
  The rows up to 1000 come from the first file and the row after them from the second,
  so the records are not the map over the rows the run started with.
\<close>

lemma file_change_during_yield:
  "normalizedResults
     (fst (processData newFuse lc ''name'' [[FileParsed (replicate 1001 null_row)]] crowded_state))
   = replicate 1000 \<lparr>Input_Firm_Name = JStr [], Standardized_Firm_Name = JStr ''UNKNOWN''\<rparr>
     @ [\<lparr>Input_Firm_Name = JNull, Standardized_Firm_Name = JStr ''UNKNOWN''\<rparr>]"
proof -
  let ?blank = "\<lparr>Input_Firm_Name = JStr [], Standardized_Firm_Name = JStr ''UNKNOWN''\<rparr>"
  let ?null = "\<lparr>Input_Firm_Name = JNull, Standardized_Firm_Name = JStr ''UNKNOWN''\<rparr>"
  define st0 where "st0 = crowded_state\<lparr>normalizedResults := []\<rparr>"
  define st1 where "st1 = st0\<lparr>normalizedResults := replicate 1000 ?blank\<rparr>"
  define st2 where "st2 = st1\<lparr>parsedData := replicate 1001 null_row\<rparr>"
  define st3 where "st3 = st2\<lparr>normalizedResults := replicate 1000 ?blank @ [?null]\<rparr>"
  have rows0: "parsedData st0 = replicate 1001 blank_row" "normalizedResults st0 = []"
    by (simp_all add: st0_def crowded_state_def)
  have blank: "standardizeName st (js_get blank_row ''name'') = Inr (JStr ''UNKNOWN'')" for st
    by (simp add: standardizeName_def blank_row_def js_get_def UNKNOWN_def)
  have null: "standardizeName st (js_get null_row ''name'') = Inr (JStr ''UNKNOWN'')" for st
    by (simp add: standardizeName_def null_row_def js_get_def UNKNOWN_def)
  have falsy: "standardizeName st JNull = Inr (JStr ''UNKNOWN'')"
    "standardizeName st (JStr []) = Inr (JStr ''UNKNOWN'')" for st
    by (simp_all add: standardizeName_def UNKNOWN_def)
  have names: "js_get blank_row ''name'' = JStr []" "js_get null_row ''name'' = JNull"
    by (simp_all add: blank_row_def null_row_def js_get_def)
  have first: "process_rows ''name'' 0 1000 st0 = (st1, None)"
    using process_rows_run [of 1000 st0 0 "''name''"]
    by (simp add: rows0 st1_def names
          unchunked_loop_replicate [of "standardizeName st0" blank_row "''name''", OF blank])
  have "drop 1000 (replicate 1001 null_row) = [null_row]"
    by (simp add: numeral_eq_Suc)
  then have second: "process_rows ''name'' 1000 1001 st2 = (st3, None)"
    using process_rows_run [of 1001 st2 1000 "''name''"]
    by (simp add: st2_def st3_def st1_def rows0 Let_def falsy names)
  have "processData newFuse lc ''name'' [[FileParsed (replicate 1001 null_row)]] crowded_state
      = processChunk newFuse lc ''name'' 1001 0 [[FileParsed (replicate 1001 null_row)]] st0"
    by (simp add: processData_def st0_def crowded_state_def)
  also have "\<dots> = processChunk newFuse lc ''name'' 1001 1000 [] st2"
    using processChunk_step [of "''name''" 0 1001 st0 st1] first
    by (simp add: chunkSize_def st2_def)
  also have "\<dots> = displayResults lc st3"
    using processChunk_step [of "''name''" 1000 1001 st2 st3] second
    by (simp add: chunkSize_def)
  finally show ?thesis
    by (simp add: displayResults_normalizedResults st3_def)
qed

lemma crowded_state_independent_results:
  "independent_results (standardizeName crowded_state) ''name'' (parsedData crowded_state)
     = replicate 1001 (JStr [], Inr (JStr ''UNKNOWN''))"
  by (simp add: independent_results_def crowded_state_def blank_row_def js_get_def
        standardizeName_def UNKNOWN_def)

text \<open>
  The view of the fourth scenario: one group with the two spellings, and the group
  \<^verbatim>\<open>UNKNOWN\<close> after it.
\<close>

lemma scenario_batch_view:
  "resultsDiv (fst (processData exact_Fuse codeunit_compare ''name'' [] acme_state)) =
     [\<lparr>summary_key = ''Acme Corporation'', summary_count = 2,
       listed = [JStr ''Acme Bank'', JStr ''ACME BANK.''], omitted = None\<rparr>,
      \<lparr>summary_key = ''UNKNOWN'', summary_count = 1,
       listed = [JStr ''UNKNOWN CO''], omitted = None\<rparr>]"
  by code_simp

section \<open>Facts about the results view and the export\<close>

text \<open>
  The \<^verbatim>\<open>reduce\<close> of \<^verbatim>\<open>displayResults\<close> computes the groups of the specification, as
  long as no standardized name is the name of an inherited member.
\<close>

lemma set_first_seen [simp]: "set (first_seen xs) = set xs"
  by (induction xs) auto

lemma distinct_first_seen [simp]: "distinct (first_seen xs)"
  by (induction xs) auto

lemma first_seen_snoc:
  "first_seen (xs @ [x]) = (if x \<in> set xs then first_seen xs else first_seen xs @ [x])"
  by (induction xs) auto

lemma map_of_groups_of:
  "map_of (groups_of done) key =
     (if key \<in> record_key ` set done then Some (first_seen (names_under key done)) else None)"
  by (auto simp: groups_of_def map_of_map_restrict restrict_map_def)

lemma update_keyed_map:
  "distinct ks \<Longrightarrow> k \<in> set ks \<Longrightarrow>
     AList.update k v (map (\<lambda>k'. (k', f k')) ks) = map (\<lambda>k'. (k', if k' = k then v else f k')) ks"
  by (induction ks) auto

lemma names_under_snoc:
  "names_under k (done @ [r]) =
     (if record_key r = k then names_under k done @ [Input_Firm_Name r] else names_under k done)"
  by (simp add: names_under_def)

lemma names_under_empty: "k \<notin> record_key ` set done \<Longrightarrow> names_under k done = []"
  by (auto simp: names_under_def filter_empty_conv)

lemma group_step_groups_of:
  assumes "Object_prototype (record_key r) = None"
  shows "group_step (groups_of done) r = Inr (groups_of (done @ [r]))"
proof (cases "record_key r \<in> record_key ` set done")
  case True
  let ?names = "first_seen (names_under (record_key r) done)"
  have keys: "first_seen (map record_key (done @ [r])) = first_seen (map record_key done)"
    using True by (simp add: first_seen_snoc)
  have "groups_of (done @ [r]) =
      (if Input_Firm_Name r \<in> set ?names then groups_of done
       else AList.update (record_key r) (?names @ [Input_Firm_Name r]) (groups_of done))"
    using True
    by (auto simp: groups_of_def keys names_under_snoc first_seen_snoc update_keyed_map)
  then show ?thesis
    using True by (simp add: group_step_def map_of_groups_of Let_def flip: record_key_def)
next
  case False
  have "groups_of (done @ [r]) = groups_of done @ [(record_key r, [Input_Firm_Name r])]"
    using False
    by (auto simp: groups_of_def names_under_snoc first_seen_snoc names_under_empty)
  then show ?thesis
    using False assms by (simp add: group_step_def map_of_groups_of Let_def flip: record_key_def)
qed

lemma group_results_groups_of:
  "list_all (\<lambda>r. Object_prototype (record_key r) = None) rest \<Longrightarrow>
     group_results (groups_of done) rest = Inr (groups_of (done @ rest))"
proof (induction rest arbitrary: "done")
  case Nil
  show ?case by simp
next
  case (Cons r rest)
  then have "group_results (groups_of (done @ [r])) rest = Inr (groups_of ((done @ [r]) @ rest))"
    by (intro Cons.IH) simp
  then show ?case
    using Cons.prems by (simp add: group_step_groups_of)
qed

lemma groups_of_Nil: "groups_of [] = []"
  by (simp add: groups_of_def)

lemma set_js_insert: "set (js_insert cmp x ys) = insert x (set ys)"
  by (induction ys) auto

lemma set_js_sort: "set (js_sort cmp xs) = set xs"
  by (induction xs) (simp_all add: js_sort_def set_js_insert)

lemma distinct_js_insert: "distinct ys \<Longrightarrow> x \<notin> set ys \<Longrightarrow> distinct (js_insert cmp x ys)"
  by (induction ys) (auto simp: set_js_insert)

lemma js_sort_Cons: "js_sort cmp (x # xs) = js_insert cmp x (js_sort cmp xs)"
  by (simp add: js_sort_def)

lemma distinct_js_sort: "distinct xs \<Longrightarrow> distinct (js_sort cmp xs)"
  by (induction xs) (simp_all add: js_sort_Cons distinct_js_insert set_js_sort, simp add: js_sort_def)

lemma sorted_js_insert:
  assumes tot: "\<And>a b. a \<noteq> b \<Longrightarrow> cmp a b \<le> 0 \<or> cmp b a \<le> 0"
    and trans: "\<And>a b c. cmp a b \<le> 0 \<Longrightarrow> cmp b c \<le> 0 \<Longrightarrow> cmp a c \<le> 0"
  shows "sorted_wrt (\<lambda>a b. cmp a b \<le> 0) ys \<Longrightarrow> x \<notin> set ys
     \<Longrightarrow> sorted_wrt (\<lambda>a b. cmp a b \<le> 0) (js_insert cmp x ys)"
proof (induction ys)
  case Nil
  show ?case by simp
next
  case (Cons y ys)
  show ?case
  proof (cases "cmp x y \<le> 0")
    case True
    then have "\<forall>z\<in>set ys. cmp x z \<le> 0"
      using Cons.prems(1) trans by auto
    with True Cons.prems(1) show ?thesis by simp
  next
    case False
    then have "cmp y x \<le> 0"
      using tot [of x y] Cons.prems(2) by auto
    with False Cons show ?thesis
      by (auto simp: set_js_insert)
  qed
qed

lemma sorted_js_sort:
  assumes tot: "\<And>a b. a \<noteq> b \<Longrightarrow> cmp a b \<le> 0 \<or> cmp b a \<le> 0"
    and trans: "\<And>a b c. cmp a b \<le> 0 \<Longrightarrow> cmp b c \<le> 0 \<Longrightarrow> cmp a c \<le> 0"
  shows "distinct xs \<Longrightarrow> sorted_wrt (\<lambda>a b. cmp a b \<le> 0) (js_sort cmp xs)"
proof (induction xs)
  case Nil
  show ?case by (simp add: js_sort_def)
next
  case (Cons x xs)
  show ?case
    unfolding js_sort_Cons
  proof (rule sorted_js_insert)
    show "cmp a b \<le> 0 \<or> cmp b a \<le> 0" if "a \<noteq> b" for a b
      using that by (rule tot)
    show "cmp a c \<le> 0" if "cmp a b \<le> 0" "cmp b c \<le> 0" for a b c
      using that by (rule trans)
    show "sorted_wrt (\<lambda>a b. cmp a b \<le> 0) (js_sort cmp xs)"
      using Cons by simp
    show "x \<notin> set (js_sort cmp xs)"
      using Cons.prems by (simp add: set_js_sort)
  qed
qed

lemma compare_keys_total:
  assumes "consistent_collation lc" and "a \<noteq> b"
  shows "compare_keys lc a b \<le> 0 \<or> compare_keys lc b a \<le> 0"
proof -
  from assms(1) have "lc a b \<le> 0 \<or> lc b a \<le> 0"
    unfolding consistent_collation_def by blast
  with assms(2) show ?thesis
    by (auto simp: compare_keys_def)
qed

lemma compare_keys_trans:
  assumes "consistent_collation lc"
    and "compare_keys lc a b \<le> 0" and "compare_keys lc b c \<le> 0"
  shows "compare_keys lc a c \<le> 0"
proof (cases "c = ''UNKNOWN''")
  case True
  with assms(2) show ?thesis
    by (simp add: compare_keys_def split: if_splits)
next
  case False
  from assms(2,3) have ab: "lc a b \<le> 0" "lc b c \<le> 0" and a: "a \<noteq> ''UNKNOWN''"
    using False by (simp_all add: compare_keys_def split: if_splits)
  from assms(1) ab have "lc a c \<le> 0"
    unfolding consistent_collation_def by blast
  with a False show ?thesis
    by (simp add: compare_keys_def)
qed

lemma set_own_keys: "set (own_keys g) = fst ` set g"
  by (auto simp: own_keys_def Let_def)

lemma distinct_own_keys: "distinct (map fst g) \<Longrightarrow> distinct (own_keys g)"
  by (auto simp: own_keys_def Let_def)

lemma sorted_sortedKeys:
  "consistent_collation lc \<Longrightarrow> distinct (map fst g) \<Longrightarrow>
     sorted_wrt (\<lambda>a b. compare_keys lc a b \<le> 0) (sortedKeys lc g)"
proof -
  assume lc: "consistent_collation lc" and g: "distinct (map fst g)"
  show ?thesis
    unfolding sortedKeys_def
  proof (rule sorted_js_sort)
    show "compare_keys lc a b \<le> 0 \<or> compare_keys lc b a \<le> 0" if "a \<noteq> b" for a b
      using lc that by (rule compare_keys_total)
    show "compare_keys lc a c \<le> 0"
      if "compare_keys lc a b \<le> 0" "compare_keys lc b c \<le> 0" for a b c
      using lc that by (rule compare_keys_trans)
    show "distinct (own_keys g)"
      using g by (rule distinct_own_keys)
  qed
qed

lemma last_of_sorted:
  "sorted_wrt R xs \<Longrightarrow> u \<in> set xs \<Longrightarrow> (\<And>b. \<not> R u b) \<Longrightarrow> last xs = u"
  by (induction xs) auto

lemma UNKNOWN_sorts_last:
  assumes "sorted_wrt (\<lambda>a b. compare_keys lc a b \<le> 0) keys" and "''UNKNOWN'' \<in> set keys"
  shows "last keys = ''UNKNOWN''"
  using assms by (rule last_of_sorted) (simp add: compare_keys_def)

lemma others_sorted_by_collation:
  assumes "sorted_wrt (\<lambda>a b. compare_keys lc a b \<le> 0) keys"
  shows "sorted_wrt (\<lambda>a b. lc a b \<le> 0) (filter (\<lambda>k. k \<noteq> ''UNKNOWN'') keys)"
proof -
  have "sorted_wrt (\<lambda>a b. compare_keys lc a b \<le> 0) (filter (\<lambda>k. k \<noteq> ''UNKNOWN'') keys)"
    using assms by (rule sorted_wrt_filter)
  then show ?thesis
    by (rule sorted_wrt_mono_rel [rotated]) (auto simp: compare_keys_def)
qed

lemma group_of_groups_of:
  "key \<in> record_key ` set records \<Longrightarrow>
     group_of (groups_of records) key = first_seen (names_under key records)"
  by (simp add: group_of_def map_of_groups_of)

lemma keys_groups_of: "map fst (groups_of records) = first_seen (map record_key records)"
  by (simp add: groups_of_def comp_def)

text \<open>The order of the code units is a collation of the kind \<^verbatim>\<open>sort\<close> needs.\<close>

lemma codeunit_compare_total: "codeunit_compare a b \<le> 0 \<or> codeunit_compare b a \<le> 0"
  by (induction a b rule: codeunit_compare.induct) auto

lemma codeunit_compare_Cons_le:
  "codeunit_compare (a # as) (b # bs) \<le> 0 \<longleftrightarrow>
     (of_char a :: nat) < of_char b \<or> ((of_char a :: nat) = of_char b \<and> codeunit_compare as bs \<le> 0)"
  by auto

lemma codeunit_compare_trans:
  "codeunit_compare a b \<le> 0 \<Longrightarrow> codeunit_compare b c \<le> 0 \<Longrightarrow> codeunit_compare a c \<le> 0"
proof (induction a arbitrary: b c)
  case Nil
  then show ?case by (cases c) simp_all
next
  case (Cons x xs)
  from Cons.prems(1) obtain y ys where b: "b = y # ys"
    by (cases b) simp_all
  from Cons.prems(2) b obtain z zs where c: "c = z # zs"
    by (cases c) simp_all
  from Cons.prems(1) b
  have xy: "(of_char x :: nat) < of_char y
      \<or> ((of_char x :: nat) = of_char y \<and> codeunit_compare xs ys \<le> 0)"
    by (simp only: codeunit_compare_Cons_le)
  from Cons.prems(2) b c
  have yz: "(of_char y :: nat) < of_char z
      \<or> ((of_char y :: nat) = of_char z \<and> codeunit_compare ys zs \<le> 0)"
    by (simp only: codeunit_compare_Cons_le)
  have "(of_char x :: nat) < of_char z
      \<or> ((of_char x :: nat) = of_char z \<and> codeunit_compare xs zs \<le> 0)"
    using xy yz Cons.IH [of ys zs] by linarith
  then show ?case
    by (simp only: c codeunit_compare_Cons_le)
qed

lemma codeunit_compare_consistent: "consistent_collation codeunit_compare"
  unfolding consistent_collation_def
  using codeunit_compare_total codeunit_compare_trans by blast

text \<open>
  The invariants of the grouping, for records none of whose standardized names is the
  name of an inherited member: the view has one group per standardized name, the keys
  other than \<^verbatim>\<open>UNKNOWN\<close> ascend in the collation, \<^verbatim>\<open>UNKNOWN\<close> is last when it is
  there, and a group holds its distinct input names in first-seen order.
\<close>

lemma grouping_invariants:
  assumes "consistent_collation lc"
    and "list_all (\<lambda>r. Object_prototype (record_key r) = None) (normalizedResults st)"
  shows "displayResults lc st =
           (st\<lparr>resultsDiv :=
                 map (\<lambda>key. render_group key (first_seen (names_under key (normalizedResults st))))
                   (sortedKeys lc (groups_of (normalizedResults st)))\<rparr>, None)"
    and "set (sortedKeys lc (groups_of (normalizedResults st))) = record_key ` set (normalizedResults st)"
    and "distinct (sortedKeys lc (groups_of (normalizedResults st)))"
    and "sorted_wrt (\<lambda>a b. lc a b \<le> 0)
           (filter (\<lambda>k. k \<noteq> ''UNKNOWN'') (sortedKeys lc (groups_of (normalizedResults st))))"
    and "''UNKNOWN'' \<in> record_key ` set (normalizedResults st) \<Longrightarrow>
           last (sortedKeys lc (groups_of (normalizedResults st))) = ''UNKNOWN''"
    and "distinct (first_seen (names_under key (normalizedResults st)))"
proof -
  let ?g = "groups_of (normalizedResults st)"
  have g: "group_results [] (normalizedResults st) = Inr ?g"
    using group_results_groups_of [OF assms(2), of "[]"] by (simp add: groups_of_Nil)
  have dk: "distinct (map fst ?g)"
    by (simp add: keys_groups_of)
  show keys: "set (sortedKeys lc ?g) = record_key ` set (normalizedResults st)"
    by (simp add: sortedKeys_def set_js_sort set_own_keys keys_groups_of flip: set_map)
  have "map (\<lambda>key. render_group key (group_of ?g key)) (sortedKeys lc ?g)
      = map (\<lambda>key. render_group key (first_seen (names_under key (normalizedResults st))))
          (sortedKeys lc ?g)"
    using keys by (intro map_cong refl) (simp add: group_of_groups_of)
  then show "displayResults lc st =
           (st\<lparr>resultsDiv :=
                 map (\<lambda>key. render_group key (first_seen (names_under key (normalizedResults st))))
                   (sortedKeys lc ?g)\<rparr>, None)"
    by (simp add: displayResults_def g)
  show "distinct (sortedKeys lc ?g)"
    unfolding sortedKeys_def by (intro distinct_js_sort distinct_own_keys dk)
  have sorted: "sorted_wrt (\<lambda>a b. compare_keys lc a b \<le> 0) (sortedKeys lc ?g)"
    using assms(1) dk by (rule sorted_sortedKeys)
  then show "sorted_wrt (\<lambda>a b. lc a b \<le> 0) (filter (\<lambda>k. k \<noteq> ''UNKNOWN'') (sortedKeys lc ?g))"
    by (rule others_sorted_by_collation)
  show "last (sortedKeys lc ?g) = ''UNKNOWN''"
    if "''UNKNOWN'' \<in> record_key ` set (normalizedResults st)"
    using sorted that keys by (intro UNKNOWN_sorts_last) simp_all
  show "distinct (first_seen (names_under key (normalizedResults st)))"
    by simp
qed

text \<open>The records of the fourth scenario meet the condition on the standardized names.\<close>

lemma acme_records_no_inherited_key:
  "list_all (\<lambda>r. Object_prototype (record_key r) = None) acme_records"
  by code_simp

text \<open>
  C9 (capping is presentation only).  \<^verbatim>\<open>displayResults\<close> changes nothing but the
  results element, so the records are as before and the export after it hands all of
  them, in order, to the serializer (or alerts when there is none).  Each group of the
  view lists the first 100 names of the group and, when names are left out, their
  number.
\<close>

theorem display_capping_is_presentation_only:
  "fst (displayResults lc st) = st\<lparr>resultsDiv := resultsDiv (fst (displayResults lc st))\<rparr>
   \<and> normalizedResults (fst (displayResults lc st)) = normalizedResults st
   \<and> downloadClick unparse (fst (displayResults lc st)) =
       (if normalizedResults st = [] then Inl ''No results to download.''
        else Inr (unparse (normalizedResults st)))
   \<and> (case group_results [] (normalizedResults st) of
        Inl e \<Rightarrow> displayResults lc st = (st, Some e)
      | Inr g \<Rightarrow>
          resultsDiv (fst (displayResults lc st)) =
            map (\<lambda>key. render_group key (group_of g key)) (sortedKeys lc g))
   \<and> summary_count (render_group key names) = length names
   \<and> listed (render_group key names) = take 100 names
   \<and> length (listed (render_group key names)) \<le> 100
   \<and> omitted (render_group key names) =
       (if 100 < length names then Some (length names - 100) else None)"
  by (simp add: displayResults_def downloadClick_def render_group_def split: sum.splits)

theorem display_capping_is_presentation_only_witness:
  "normalizedResults
      (fst (displayResults codeunit_compare (initial_state\<lparr>normalizedResults := acme_records\<rparr>)))
     = acme_records
   \<and> downloadClick plain_unparse
        (fst (displayResults codeunit_compare (initial_state\<lparr>normalizedResults := acme_records\<rparr>)))
     = Inr (plain_unparse acme_records)
   \<and> listed (render_group ''Acme Corporation'' (replicate 103 JNull)) = replicate 100 JNull
   \<and> omitted (render_group ''Acme Corporation'' (replicate 103 JNull)) = Some 3"
proof -
  have "take 100 (replicate 103 JNull) = replicate 100 JNull"
    by simp
  moreover have "acme_records \<noteq> []"
    by (simp add: acme_records_def)
  ultimately show ?thesis
    using display_capping_is_presentation_only
      [of codeunit_compare "initial_state\<lparr>normalizedResults := acme_records\<rparr>"
          plain_unparse "''Acme Corporation''" "replicate 103 JNull"]
    by simp
qed

text \<open>
  C7 (invariants of the grouping).  The claim asks for a sorted grouped view of every
  sequence of records.  For the one record \<open>constructor_record\<close>, whose standardized
  name is \<^verbatim>\<open>constructor\<close>, the read \<^verbatim>\<open>acc[key]\<close> of the \<^verbatim>\<open>reduce\<close> finds the inherited
  function \<^verbatim>\<open>Object\<close>, no array is created, and the call of \<^verbatim>\<open>includes\<close> raises: there
  is no grouped view, and the results element stays as it was.
\<close>

theorem displayResults_raises_on_inherited_key:
  "displayResults lc (st\<lparr>normalizedResults := [constructor_record]\<rparr>)
     = (st\<lparr>normalizedResults := [constructor_record]\<rparr>, Some TypeError)"
  by (simp add: displayResults_def group_step_def constructor_record_def Object_prototype_def)

end
